theory Spec2Isabelle
  imports Complex_Main
begin

section \<open>Numbers, errors and outcomes\<close>

text \<open>
  The program is TypeScript. A JavaScript \<open>number\<close> is modelled as a \<^typ>\<open>real\<close>:
  arithmetic is exact, so the rounding error of IEEE 754 doubles is not represented, and
  NaN, the infinities and the negative zero are not values of the type. Values that the
  source obtains from \<open>Math.round\<close>, \<open>Math.floor\<close> or \<open>Math.ceil\<close>, and the counters
  of its loops, are integers and have type \<^typ>\<open>int\<close>.

  A JavaScript division never throws: by zero it yields an infinity or NaN and the
  function goes on with that value and returns. The model does not use the value that HOL
  gives to \<open>x / 0\<close>: a function of the source that divides returns an \<open>outcome\<close>, and
  \<open>NonFiniteArith\<close> is the outcome of a call that divides by zero. The source does not
  throw there. The constructor carries what the model says about the value returned: for
  \<open>calcStairs\<close> the whole layout, for each of the two zeros of JavaScript that the 0 of
  the model stands for; for the other functions nothing (the unit).
\<close>

datatype error = Error string

datatype ('a, 'b) outcome = Returns 'a | Throws error | NonFiniteArith 'b

datatype infinity = Infinity

text \<open>\<open>Math.round\<close> rounds to the nearest integer, a tie towards plus infinity.\<close>

definition Math_round :: "real \<Rightarrow> int" where
  "Math_round v = \<lfloor>v + 1 / 2\<rfloor>"

definition Math_floor :: "real \<Rightarrow> int" where
  "Math_floor v = \<lfloor>v\<rfloor>"

definition Math_ceil :: "real \<Rightarrow> int" where
  "Math_ceil v = \<lceil>v\<rceil>"

section \<open>The layout solver: \<open>calcStairs\<close>\<close>

text \<open>
  \<open>StairInputs\<close> and \<open>StairOutputs\<close> as the source declares them. A field marked
  optional (\<open>targetRiserIn?\<close>) is an \<open>option\<close>; \<open>treadRunIn\<close> is declared a plain
  \<open>number\<close>, so the default that the source applies to it with \<open>??\<close> is never taken
  on a well-typed input and the field is a \<^typ>\<open>real\<close>.
\<close>

record StairInputs =
  totalRiseIn :: real
  treadRunIn :: real
  targetRiserIn :: "real option"
  finishMode :: bool
  topFinishIn :: "real option"
  bottomFinishIn :: "real option"

text \<open>
  The \<open>StairOutputs\<close> that the source returns for a target riser of positive zero, where
  \<open>numRisers\<close>, \<open>numTreads\<close>, \<open>totalRunIn\<close> and \<open>stringerLenIn\<close> are \<open>Infinity\<close>.
\<close>

record InfiniteStairOutputs =
  numRisers :: infinity
  numTreads :: infinity
  exactRiserIn :: real
  treadRunIn :: real
  totalRunIn :: infinity
  angleDeg :: real
  stringerLenIn :: infinity
  firstRiserIn :: real
  lastRiserIn :: real
  remainingMeatIn :: real
  meatPass :: bool
  warnings :: "string list"

record StairOutputs =
  numRisers :: int
  numTreads :: int
  exactRiserIn :: real
  treadRunIn :: real
  totalRunIn :: real
  angleDeg :: real
  stringerLenIn :: real
  firstRiserIn :: real
  lastRiserIn :: real
  remainingMeatIn :: real
  meatPass :: bool
  warnings :: "string list"

text \<open>
  What the source returns for a target riser of 0: one layout when the zero is the
  positive zero, another when it is the negative zero.
\<close>

record ZeroTargetOutputs =
  atPositiveZero :: InfiniteStairOutputs
  atNegativeZero :: StairOutputs

definition STRINGER_ACTUAL_DEPTH_IN :: real where
  "STRINGER_ACTUAL_DEPTH_IN = 11.25"

definition MIN_MEAT_IN :: real where
  "MIN_MEAT_IN = 3.5"

definition riser_warning :: string where
  "riser_warning = ''Riser over 7.75\" (may fail code depending on jurisdiction).''"

definition tread_warning :: string where
  "tread_warning = ''Tread run under 10\" (may fail code depending on jurisdiction).''"

text \<open>The dash of the third message is U+2014; it is written here as its three UTF-8 bytes.\<close>

definition meat_warning :: string where
  "meat_warning = ''2x12 meat FAIL '' @ [CHR 0xE2, CHR 0x80, CHR 0x94]
     @ '' redesign needed (bigger stock/LVL or adjust rise/run).''"

text \<open>
  With a positive total rise and a target riser of positive zero the source computes
  \<open>raw = totalRiseIn / 0 = Infinity\<close>, \<open>numRisers = Math.round(Infinity) = Infinity\<close>
  (which is not under 2), \<open>exactRiserIn = totalRiseIn / Infinity = 0\<close>,
  \<open>numTreads = Infinity - 1 = Infinity\<close>, \<open>totalRunIn = Infinity * treadRunIn = Infinity\<close>
  (the tread run is positive) and \<open>stringerLenIn = Math.sqrt(Infinity) = Infinity\<close>; the
  other fields are computed from \<open>exactRiserIn = 0\<close> as for any other layout.

  With a target riser of negative zero it computes \<open>raw = totalRiseIn / -0 = -Infinity\<close>
  and \<open>Math.round(-Infinity) = -Infinity\<close>, which is under 2, so \<open>numRisers\<close> becomes 2
  and the rest is computed from it as for any other layout.
\<close>

definition calcStairs :: "StairInputs \<Rightarrow> (StairOutputs, ZeroTargetOutputs) outcome" where
  "calcStairs input =
    (let warnings0 = [];
         totalRiseIn = StairInputs.totalRiseIn input;
         treadRunIn = StairInputs.treadRunIn input;
         targetRiserIn = (case StairInputs.targetRiserIn input of None \<Rightarrow> 7.25 | Some t \<Rightarrow> t)
     in if \<not> (totalRiseIn > 0) then Throws (Error ''Total rise must be > 0'')
        else if \<not> (treadRunIn > 0) then Throws (Error ''Tread run must be > 0'')
        else if targetRiserIn = 0 then
          NonFiniteArith \<lparr>
            atPositiveZero =
              (let exactRiserIn = 0;
                   angleDeg = arctan (exactRiserIn / treadRunIn) * (180 / pi);
                   top = (case topFinishIn input of None \<Rightarrow> 0 | Some v \<Rightarrow> v);
                   bottom = (case bottomFinishIn input of None \<Rightarrow> 0 | Some v \<Rightarrow> v);
                   firstRiserIn =
                     (if finishMode input then exactRiserIn + bottom else exactRiserIn);
                   lastRiserIn = (if finishMode input then exactRiserIn - top else exactRiserIn);
                   remainingMeatIn = STRINGER_ACTUAL_DEPTH_IN - exactRiserIn - treadRunIn;
                   meatPass = (remainingMeatIn \<ge> MIN_MEAT_IN);
                   warnings1 =
                     (if exactRiserIn > 7.75 then warnings0 @ [riser_warning] else warnings0);
                   warnings2 =
                     (if treadRunIn < 10.0 then warnings1 @ [tread_warning] else warnings1);
                   warnings3 = (if \<not> meatPass then warnings2 @ [meat_warning] else warnings2)
               in \<lparr> InfiniteStairOutputs.numRisers = Infinity,
                    InfiniteStairOutputs.numTreads = Infinity,
                    InfiniteStairOutputs.exactRiserIn = exactRiserIn,
                    InfiniteStairOutputs.treadRunIn = treadRunIn,
                    InfiniteStairOutputs.totalRunIn = Infinity,
                    InfiniteStairOutputs.angleDeg = angleDeg,
                    InfiniteStairOutputs.stringerLenIn = Infinity,
                    InfiniteStairOutputs.firstRiserIn = firstRiserIn,
                    InfiniteStairOutputs.lastRiserIn = lastRiserIn,
                    InfiniteStairOutputs.remainingMeatIn = remainingMeatIn,
                    InfiniteStairOutputs.meatPass = meatPass,
                    InfiniteStairOutputs.warnings = warnings3 \<rparr>),
            atNegativeZero =
              (let numRisers = 2;
                   exactRiserIn = totalRiseIn / real_of_int numRisers;
                   numTreads = numRisers - 1;
                   totalRunIn = real_of_int numTreads * treadRunIn;
                   angleDeg = arctan (exactRiserIn / treadRunIn) * (180 / pi);
                   stringerLenIn = sqrt (totalRiseIn ^ 2 + totalRunIn ^ 2);
                   top = (case topFinishIn input of None \<Rightarrow> 0 | Some v \<Rightarrow> v);
                   bottom = (case bottomFinishIn input of None \<Rightarrow> 0 | Some v \<Rightarrow> v);
                   firstRiserIn =
                     (if finishMode input then exactRiserIn + bottom else exactRiserIn);
                   lastRiserIn = (if finishMode input then exactRiserIn - top else exactRiserIn);
                   remainingMeatIn = STRINGER_ACTUAL_DEPTH_IN - exactRiserIn - treadRunIn;
                   meatPass = (remainingMeatIn \<ge> MIN_MEAT_IN);
                   warnings1 =
                     (if exactRiserIn > 7.75 then warnings0 @ [riser_warning] else warnings0);
                   warnings2 =
                     (if treadRunIn < 10.0 then warnings1 @ [tread_warning] else warnings1);
                   warnings3 = (if \<not> meatPass then warnings2 @ [meat_warning] else warnings2)
               in \<lparr> numRisers = numRisers, numTreads = numTreads,
                    exactRiserIn = exactRiserIn, treadRunIn = treadRunIn,
                    totalRunIn = totalRunIn, angleDeg = angleDeg,
                    stringerLenIn = stringerLenIn, firstRiserIn = firstRiserIn,
                    lastRiserIn = lastRiserIn, remainingMeatIn = remainingMeatIn,
                    meatPass = meatPass, warnings = warnings3 \<rparr>) \<rparr>
        else
          let raw = totalRiseIn / targetRiserIn;
              numRisers0 = Math_round raw;
              numRisers = (if numRisers0 < 2 then 2 else numRisers0);
              exactRiserIn = totalRiseIn / real_of_int numRisers;
              numTreads = numRisers - 1;
              totalRunIn = real_of_int numTreads * treadRunIn;
              angleDeg = arctan (exactRiserIn / treadRunIn) * (180 / pi);
              stringerLenIn = sqrt (totalRiseIn ^ 2 + totalRunIn ^ 2);
              top = (case topFinishIn input of None \<Rightarrow> 0 | Some v \<Rightarrow> v);
              bottom = (case bottomFinishIn input of None \<Rightarrow> 0 | Some v \<Rightarrow> v);
              firstRiserIn = (if finishMode input then exactRiserIn + bottom else exactRiserIn);
              lastRiserIn = (if finishMode input then exactRiserIn - top else exactRiserIn);
              remainingMeatIn = STRINGER_ACTUAL_DEPTH_IN - exactRiserIn - treadRunIn;
              meatPass = (remainingMeatIn \<ge> MIN_MEAT_IN);
              warnings1 = (if exactRiserIn > 7.75 then warnings0 @ [riser_warning] else warnings0);
              warnings2 = (if treadRunIn < 10.0 then warnings1 @ [tread_warning] else warnings1);
              warnings3 = (if \<not> meatPass then warnings2 @ [meat_warning] else warnings2)
          in Returns \<lparr> numRisers = numRisers, numTreads = numTreads,
               exactRiserIn = exactRiserIn, treadRunIn = treadRunIn,
               totalRunIn = totalRunIn, angleDeg = angleDeg,
               stringerLenIn = stringerLenIn, firstRiserIn = firstRiserIn,
               lastRiserIn = lastRiserIn, remainingMeatIn = remainingMeatIn,
               meatPass = meatPass, warnings = warnings3 \<rparr>)"

section \<open>The materials estimator: \<open>calcMaterials\<close>\<close>

record MaterialsInputs =
  stairWidthIn :: real
  stringerOcin :: real
  closedStair :: bool
  numTreads :: int
  numRisers :: int
  stringerLenIn :: real

record MaterialsOutputs =
  numStringers :: int
  suggestedStockLenFt :: int
  treadsQty :: int
  risersQty :: int
  "notes" :: "string list"

definition COMMON_STOCK_FT :: "int list" where
  "COMMON_STOCK_FT = [8, 10, 12, 14, 16, 18, 20]"

definition calcMaterials :: "MaterialsInputs \<Rightarrow> (MaterialsOutputs, unit) outcome" where
  "calcMaterials m =
    (if stringerOcin m = 0 then NonFiniteArith ()
     else
       let notes0 = [];
           numStringers0 = Math_ceil (stairWidthIn m / stringerOcin m) + 1;
           numStringers1 = (if numStringers0 < 2 then 2 else numStringers0);
           numStringers = (if stairWidthIn m \<le> 36 then max numStringers1 3 else numStringers1);
           neededFt = MaterialsInputs.stringerLenIn m / 12;
           suggestedStockLenFt =
             (case find (\<lambda>ft. real_of_int ft \<ge> neededFt) COMMON_STOCK_FT of
                Some ft \<Rightarrow> ft | None \<Rightarrow> Math_ceil neededFt);
           treadsQty = MaterialsInputs.numTreads m;
           risersQty = (if closedStair m then MaterialsInputs.numRisers m else 0);
           notes1 = (if suggestedStockLenFt \<ge> 18
                     then notes0 @ [''Long stock: consider LVL or splicing plan.''] else notes0);
           notes2 = notes1 @ [''Blocking/bridging as required (especially mid-span).''];
           notes3 = notes2 @
             [''Check local code for max riser/min tread + guard/handrail requirements.'']
       in Returns \<lparr> numStringers = numStringers, suggestedStockLenFt = suggestedStockLenFt,
            treadsQty = treadsQty, risersQty = risersQty, notes = notes3 \<rparr>)"

section \<open>The 3D geometry builder: \<open>buildStaircaseGeometry\<close>\<close>

text \<open>
  A \<open>Vector3\<close> of the graphics library is its three coordinates. Every \<open>for\<close> loop of
  the source is a recursive function of its counter and of the array it pushes to.
\<close>

datatype Vector3 = Vector3 (vec_x: real) (vec_y: real) (vec_z: real)

record Dimensions =
  width :: real
  height :: real
  depth :: real

record StaircaseGeometry =
  stringers :: "Vector3 list list"
  treads :: "Vector3 list list"
  risers :: "Vector3 list list"
  dimensions :: Dimensions

definition TREAD_THICKNESS :: real where
  "TREAD_THICKNESS = 1.0"

text \<open>The inner loop of the stringer path: two points for every step.\<close>

function stepLoop :: "StairOutputs \<Rightarrow> real \<Rightarrow> int \<Rightarrow> Vector3 list \<Rightarrow> Vector3 list" where
  "stepLoop stairData xPos step stringerPath =
    (if step < StairOutputs.numTreads stairData then
       let riseY = (real_of_int step + 1) * exactRiserIn stairData;
           runZ = (real_of_int step + 1) * StairOutputs.treadRunIn stairData
       in stepLoop stairData xPos (step + 1)
            (stringerPath @
              [Vector3 xPos riseY (runZ - StairOutputs.treadRunIn stairData),
               Vector3 xPos riseY runZ])
     else stringerPath)"
  by pat_completeness auto
termination
  by (relation "measure (\<lambda>(sd, xp, step, p). nat (StairOutputs.numTreads sd - step))") auto

declare stepLoop.simps [simp del]

function stringerLoop ::
  "StairOutputs \<Rightarrow> int \<Rightarrow> real \<Rightarrow> int \<Rightarrow> Vector3 list list \<Rightarrow> Vector3 list list" where
  "stringerLoop stairData numStringers' stringerSpacing i stringers' =
    (if i < numStringers' then
       let xPos = real_of_int i * stringerSpacing;
           stringerPath0 = [Vector3 xPos 0 0];
           stringerPath1 = stepLoop stairData xPos 0 stringerPath0;
           totalRise = real_of_int (StairOutputs.numRisers stairData) * exactRiserIn stairData;
           stringerPath2 = stringerPath1 @ [Vector3 xPos totalRise (totalRunIn stairData)]
       in stringerLoop stairData numStringers' stringerSpacing (i + 1)
            (stringers' @ [stringerPath2])
     else stringers')"
  by pat_completeness auto
termination
  by (relation "measure (\<lambda>(sd, n, sp, i, acc). nat (n - i))") auto

declare stringerLoop.simps [simp del]

function treadLoop :: "StairOutputs \<Rightarrow> real \<Rightarrow> int \<Rightarrow> Vector3 list list \<Rightarrow> Vector3 list list" where
  "treadLoop stairData stairWidthIn' step treads' =
    (if step < StairOutputs.numTreads stairData then
       let riseY = (real_of_int step + 1) * exactRiserIn stairData;
           runZ = (real_of_int step + 1) * StairOutputs.treadRunIn stairData;
           tread =
             [Vector3 0 riseY (runZ - StairOutputs.treadRunIn stairData),
              Vector3 stairWidthIn' riseY (runZ - StairOutputs.treadRunIn stairData),
              Vector3 stairWidthIn' riseY runZ,
              Vector3 0 riseY runZ,
              Vector3 0 (riseY + TREAD_THICKNESS) (runZ - StairOutputs.treadRunIn stairData),
              Vector3 stairWidthIn' (riseY + TREAD_THICKNESS)
                (runZ - StairOutputs.treadRunIn stairData),
              Vector3 stairWidthIn' (riseY + TREAD_THICKNESS) runZ,
              Vector3 0 (riseY + TREAD_THICKNESS) runZ]
       in treadLoop stairData stairWidthIn' (step + 1) (treads' @ [tread])
     else treads')"
  by pat_completeness auto
termination
  by (relation "measure (\<lambda>(sd, w, step, acc). nat (StairOutputs.numTreads sd - step))") auto

declare treadLoop.simps [simp del]

function riserLoop :: "StairOutputs \<Rightarrow> real \<Rightarrow> int \<Rightarrow> Vector3 list list \<Rightarrow> Vector3 list list" where
  "riserLoop stairData stairWidthIn' step risers' =
    (if step < StairOutputs.numRisers stairData then
       let bottomY = real_of_int step * exactRiserIn stairData;
           topY = (real_of_int step + 1) * exactRiserIn stairData;
           runZ = real_of_int step * StairOutputs.treadRunIn stairData;
           riser =
             [Vector3 0 bottomY runZ,
              Vector3 stairWidthIn' bottomY runZ,
              Vector3 stairWidthIn' topY runZ,
              Vector3 0 topY runZ]
       in riserLoop stairData stairWidthIn' (step + 1) (risers' @ [riser])
     else risers')"
  by pat_completeness auto
termination
  by (relation "measure (\<lambda>(sd, w, step, acc). nat (StairOutputs.numRisers sd - step))") auto

declare riserLoop.simps [simp del]

text \<open>
  The spacing divides by \<open>numStringers - 1\<close>. With one stringer the source divides by
  zero, and the x-coordinate of that stringer is \<open>0 * Infinity\<close>, which is NaN.
\<close>

definition buildStaircaseGeometry ::
  "StairOutputs \<Rightarrow> MaterialsOutputs \<Rightarrow> real \<Rightarrow> (StaircaseGeometry, unit) outcome" where
  "buildStaircaseGeometry stairData materialsData stairWidthIn' =
    (let numStringers = MaterialsOutputs.numStringers materialsData
     in if numStringers - 1 = 0 then NonFiniteArith ()
        else
          let stringerSpacing = stairWidthIn' / real_of_int (numStringers - 1);
              stringers = stringerLoop stairData numStringers stringerSpacing 0 [];
              treads = treadLoop stairData stairWidthIn' 0 [];
              risers = riserLoop stairData stairWidthIn' 0 []
          in Returns \<lparr> stringers = stringers, treads = treads, risers = risers,
               dimensions = \<lparr> width = stairWidthIn',
                 height = real_of_int (StairOutputs.numRisers stairData) * exactRiserIn stairData,
                 depth = totalRunIn stairData \<rparr> \<rparr>)"

text \<open>
  The outline of one stringer in the words of the specification: the bottom origin, then for
  every tread the top-of-riser point followed by the back-of-tread point, and the top
  landing at the end. The theorems below compare the paths that the loops build with it.
\<close>

definition top_of_riser :: "StairOutputs \<Rightarrow> real \<Rightarrow> int \<Rightarrow> Vector3" where
  "top_of_riser sd xPos k =
    Vector3 xPos ((real_of_int k + 1) * exactRiserIn sd)
      ((real_of_int k + 1) * StairOutputs.treadRunIn sd - StairOutputs.treadRunIn sd)"

definition back_of_tread :: "StairOutputs \<Rightarrow> real \<Rightarrow> int \<Rightarrow> Vector3" where
  "back_of_tread sd xPos k =
    Vector3 xPos ((real_of_int k + 1) * exactRiserIn sd)
      ((real_of_int k + 1) * StairOutputs.treadRunIn sd)"

definition stringer_outline :: "StairOutputs \<Rightarrow> real \<Rightarrow> Vector3 list" where
  "stringer_outline sd xPos =
    [Vector3 xPos 0 0]
    @ concat (map (\<lambda>k. [top_of_riser sd xPos k, back_of_tread sd xPos k])
        [0..StairOutputs.numTreads sd - 1])
    @ [Vector3 xPos (real_of_int (StairOutputs.numRisers sd) * exactRiserIn sd) (totalRunIn sd)]"

section \<open>The dimensional parser: \<open>parseInches\<close>\<close>

text \<open>
  A string is a list of characters, and the model reads ASCII text: the white space of
  \<open>trim\<close> and of the class \<open>\s\<close> is the ASCII white space (tab, line feed, vertical
  tab, form feed, carriage return, space), \<open>toLowerCase\<close> changes the letters A to Z, and
  \<open>\d\<close> is a decimal digit.
\<close>

definition is_space :: "char \<Rightarrow> bool" where
  "is_space c = (c \<in> set [CHR 0x09, CHR 0x0A, CHR 0x0B, CHR 0x0C, CHR 0x0D, CHR '' ''])"

definition is_line_terminator :: "char \<Rightarrow> bool" where
  "is_line_terminator c = (c = CHR 0x0A \<or> c = CHR 0x0D)"

definition is_digit :: "char \<Rightarrow> bool" where
  "is_digit c = (c \<in> set ''0123456789'')"

definition is_lower :: "char \<Rightarrow> bool" where
  "is_lower c = (c \<in> set ''abcdefghijklmnopqrstuvwxyz'')"

definition trim :: "string \<Rightarrow> string" where
  "trim s = rev (dropWhile is_space (rev (dropWhile is_space s)))"

definition toLowerCase :: "string \<Rightarrow> string" where
  "toLowerCase s =
    map (\<lambda>c. case map_of (zip ''ABCDEFGHIJKLMNOPQRSTUVWXYZ'' ''abcdefghijklmnopqrstuvwxyz'') c of
               Some l \<Rightarrow> l | None \<Rightarrow> c) s"

definition digit_val :: "char \<Rightarrow> nat" where
  "digit_val c = (case map_of (zip ''0123456789'' [0, 1, 2, 3, 4, 5, 6, 7, 8, 9]) c of
                    Some d \<Rightarrow> d | None \<Rightarrow> 0)"

definition digits_value :: "string \<Rightarrow> nat" where
  "digits_value ds = foldl (\<lambda>a c. 10 * a + digit_val c) 0 ds"

text \<open>The optional sign \<open>[+-]?\<close> at the head of a pattern: what follows it.\<close>

definition strip_sign :: "string \<Rightarrow> string" where
  "strip_sign s =
    (case s of [] \<Rightarrow> s | c # r \<Rightarrow> if c = CHR ''+'' \<or> c = CHR ''-'' then r else s)"

text \<open>
  \<open>Number(s)\<close>, on a string that has the form \<open>[+-]?\d+(\.\d+)?\<close> (the source converts
  no other string): the value of the decimal numeral.
\<close>

definition Number :: "string \<Rightarrow> real" where
  "Number s =
    (let r = strip_sign s;
         ip = takeWhile is_digit r;
         fp = (case dropWhile is_digit r of [] \<Rightarrow> [] | c # f \<Rightarrow> f);
         v = real (digits_value ip) + real (digits_value fp) / 10 ^ length fp
     in if take 1 s = ''-'' then - v else v)"

text \<open>
  The regular expressions of the source. In each of them the classes that follow one
  another (sign, digits, white space, the quote, the slash, the point) have no character
  in common, so the greedy match is the only one and each pattern is read from left to
  right with \<open>takeWhile\<close> and \<open>dropWhile\<close>.

  \<open>/^[+-]?\d+(\.\d+)?$/.test(s)\<close>:
\<close>

definition test_number :: "string \<Rightarrow> bool" where
  "test_number s =
    (let r = strip_sign s;
         ip = takeWhile is_digit r
     in ip \<noteq> [] \<and>
        (case dropWhile is_digit r of
           [] \<Rightarrow> True
         | c # f \<Rightarrow> c = CHR ''.'' \<and> f \<noteq> [] \<and> list_all is_digit f))"

text \<open>
  \<open>str.match(/^([+-]?\d+)\s*'\s*(.*)$/)\<close>: the two groups. The point of \<open>(.*)\<close>
  matches no line terminator.
\<close>

definition match_feet :: "string \<Rightarrow> (string \<times> string) option" where
  "match_feet str =
    (let r = strip_sign str;
         g1 = take (length str - length r) str @ takeWhile is_digit r
     in if takeWhile is_digit r = [] then None
        else
          (case dropWhile is_space (dropWhile is_digit r) of
             [] \<Rightarrow> None
           | c # r2 \<Rightarrow>
               let g2 = dropWhile is_space r2
               in if c = CHR 0x27 \<and> \<not> list_ex is_line_terminator g2 then Some (g1, g2)
                  else None))"

text \<open>\<open>p.match(/^(\d+)\s*\/\s*(\d+)$/)\<close>: numerator and denominator.\<close>

definition match_frac :: "string \<Rightarrow> (string \<times> string) option" where
  "match_frac p =
    (let num = takeWhile is_digit p
     in if num = [] then None
        else
          (case dropWhile is_space (dropWhile is_digit p) of
             [] \<Rightarrow> None
           | c # r2 \<Rightarrow>
               let r3 = dropWhile is_space r2;
                   den = takeWhile is_digit r3
               in if c = CHR ''/'' \<and> den \<noteq> [] \<and> dropWhile is_digit r3 = []
                  then Some (num, den) else None))"

text \<open>\<open>p.match(/^([+-]?\d+)\s+(\d+)\s*\/\s*(\d+)$/)\<close>: whole part, numerator, denominator.\<close>

definition match_mixed :: "string \<Rightarrow> (string \<times> string \<times> string) option" where
  "match_mixed p =
    (let r = strip_sign p;
         g1 = take (length p - length r) p @ takeWhile is_digit r;
         r1 = dropWhile is_digit r
     in if takeWhile is_digit r = [] \<or> takeWhile is_space r1 = [] then None
        else
          (case match_frac (dropWhile is_space r1) of
             None \<Rightarrow> None
           | Some (num, den) \<Rightarrow> Some (g1, num, den)))"

text \<open>
  The replacements: \<open>replace(/"/g, "")\<close>, \<open>replace(/-/g, " ")\<close> and
  \<open>replace(/[a-z]/g, "")\<close>.
\<close>

definition remove_quotes :: "string \<Rightarrow> string" where
  "remove_quotes s = filter (\<lambda>c. c \<noteq> CHR 0x22) s"

definition replace_hyphens :: "string \<Rightarrow> string" where
  "replace_hyphens p = map (\<lambda>c. if c = CHR ''-'' then CHR '' '' else c) p"

definition remove_letters :: "string \<Rightarrow> string" where
  "remove_letters p = filter (\<lambda>c. \<not> is_lower c) p"

text \<open>\<open>replace(/\s+/g, " ")\<close>: every run of white space becomes one space.\<close>

function collapse_ws :: "string \<Rightarrow> string" where
  "collapse_ws [] = []"
| "collapse_ws (c # cs) =
    (if is_space c then CHR '' '' # collapse_ws (dropWhile is_space cs)
     else c # collapse_ws cs)"
  by pat_completeness auto
termination
  by (relation "measure length") (auto simp: length_dropWhile_le less_Suc_eq_le)

lemma length_trim_le: "length (trim s) \<le> length s"
  unfolding trim_def
  by (metis length_dropWhile_le length_rev order_trans)

lemma trim_same_length: "length (trim s) = length s \<Longrightarrow> trim s = s"
proof -
  assume h: "length (trim s) = length s"
  have a: "length (dropWhile is_space (rev (dropWhile is_space s))) \<le> length (dropWhile is_space s)"
    by (metis length_dropWhile_le length_rev)
  have b: "length (dropWhile is_space s) \<le> length s"
    by (rule length_dropWhile_le)
  from h a b have c: "length (dropWhile is_space s) = length s"
    unfolding trim_def by simp
  have d: "dropWhile is_space s = s"
    using c by (metis append_eq_conv_conj append_self_conv2 length_0_conv add_diff_cancel_right'
      length_append takeWhile_dropWhile_id)
  from h have e: "length (dropWhile is_space (rev s)) = length (rev s)"
    unfolding trim_def d by simp
  have f: "dropWhile is_space (rev s) = rev s"
    using e by (metis append_eq_conv_conj append_self_conv2 length_0_conv add_diff_cancel_right'
      length_append takeWhile_dropWhile_id)
  show ?thesis unfolding trim_def d f by simp
qed

lemma cleaned_shorter:
  assumes "trim (remove_letters p) \<noteq> p"
  shows "length (trim (remove_letters p)) < length p"
proof (rule ccontr)
  assume "\<not> ?thesis"
  moreover have "length (trim (remove_letters p)) \<le> length (remove_letters p)"
    by (rule length_trim_le)
  moreover have "length (remove_letters p) \<le> length p"
    unfolding remove_letters_def by (rule length_filter_le)
  ultimately have l1: "length (remove_letters p) = length p"
    and l2: "length (trim (remove_letters p)) = length (remove_letters p)"
    by linarith+
  from l1 have "remove_letters p = p"
    unfolding remove_letters_def by (metis length_filter_less filter_True less_irrefl)
  with l2 have "trim p = p" by (simp add: trim_same_length)
  with \<open>remove_letters p = p\<close> assms show False by simp
qed

text \<open>
  \<open>parseInchesPart\<close> calls itself once more when deleting the letters changes the string;
  the string it is called on is then shorter.
\<close>

function parseInchesPart :: "string \<Rightarrow> (real, unit) outcome" where
  "parseInchesPart part =
    (let p0 = trim part
     in if p0 = [] then Returns 0
        else
          let p = replace_hyphens p0
          in if test_number p then Returns (Number p)
             else
               (case match_mixed p of
                  Some (w, num, den) \<Rightarrow>
                    if Number den = 0 then Throws (Error ''Invalid fraction'')
                    else Returns (Number w + Number num / Number den)
                | None \<Rightarrow>
                   (case match_frac p of
                      Some (num, den) \<Rightarrow>
                        if Number den = 0 then Throws (Error ''Invalid fraction'')
                        else Returns (Number num / Number den)
                    | None \<Rightarrow>
                        if trim (remove_letters p) \<noteq> p
                        then parseInchesPart (trim (remove_letters p))
                        else Throws (Error ''Unrecognized format''))))"
  by pat_completeness auto
termination
proof (relation "measure length")
  show "wf (measure length)" by simp
next
  fix part :: string and p0 p
  assume p0: "p0 = trim part"
    and p: "p = replace_hyphens p0"
    and neq: "trim (remove_letters p) \<noteq> p"
  have "length (trim (remove_letters p)) < length p"
    using neq by (rule cleaned_shorter)
  moreover have "length p \<le> length part"
    unfolding p p0 replace_hyphens_def using length_trim_le [of part] by simp
  ultimately show "(trim (remove_letters p), part) \<in> measure length"
    by simp
qed

declare parseInchesPart.simps [simp del]

text \<open>
  What \<open>parseInchesPart\<close> does once the string is trimmed and its hyphens are replaced,
  under a name of its own for the proofs.
\<close>

definition inches_of :: "string \<Rightarrow> (real, unit) outcome" where
  "inches_of p =
    (if test_number p then Returns (Number p)
     else
       (case match_mixed p of
          Some (w, num, den) \<Rightarrow>
            if Number den = 0 then Throws (Error ''Invalid fraction'')
            else Returns (Number w + Number num / Number den)
        | None \<Rightarrow>
           (case match_frac p of
              Some (num, den) \<Rightarrow>
                if Number den = 0 then Throws (Error ''Invalid fraction'')
                else Returns (Number num / Number den)
            | None \<Rightarrow>
                if trim (remove_letters p) \<noteq> p
                then parseInchesPart (trim (remove_letters p))
                else Throws (Error ''Unrecognized format''))))"

lemma parseInchesPart_unfold:
  "parseInchesPart part =
     (if trim part = [] then Returns 0 else inches_of (replace_hyphens (trim part)))"
  by (subst parseInchesPart.simps) (simp add: Let_def inches_of_def)


definition parseInches :: "string \<Rightarrow> (real, unit) outcome" where
  "parseInches input =
    (let s = toLowerCase (trim input)
     in if s = [] then Throws (Error ''Empty input'')
        else if test_number s then Returns (Number s)
        else
          let str = trim (collapse_ws (remove_quotes s));
              (feet, rest) =
                (case match_feet str of
                   Some (g1, g2) \<Rightarrow> (Number g1, trim g2)
                 | None \<Rightarrow> (0, str))
          in (case (if rest \<noteq> [] then parseInchesPart rest else Returns 0) of
                Returns inches \<Rightarrow> Returns (feet * 12 + inches)
              | Throws e \<Rightarrow> Throws e
              | NonFiniteArith u \<Rightarrow> NonFiniteArith u))"

section \<open>The formatters: \<open>toFraction\<close> and \<open>toFeetInches\<close>\<close>

text \<open>
  A template literal turns an integer into its decimal numeral, with a minus sign when it
  is negative (the exponent notation that JavaScript uses from \<open>10^21\<close> on is not
  modelled).
\<close>

definition digit_char :: "nat \<Rightarrow> char" where
  "digit_char d = ''0123456789'' ! d"

fun show_nat :: "nat \<Rightarrow> string" where
  "show_nat n = (if n < 10 then [digit_char n] else show_nat (n div 10) @ [digit_char (n mod 10)])"

definition show_int :: "int \<Rightarrow> string" where
  "show_int i = (if i < 0 then ''-'' @ show_nat (nat (- i)) else show_nat (nat i))"

text \<open>
  The \<open>while\<close> loop of \<open>gcd\<close>, on the absolute values. Both are natural numbers, where
  the remainder \<open>%\<close> of JavaScript is \<open>mod\<close>.
\<close>

fun gcd_loop :: "nat \<Rightarrow> nat \<Rightarrow> nat" where
  "gcd_loop x' y' = (if y' \<noteq> 0 then gcd_loop y' (x' mod y') else x')"

declare show_nat.simps [simp del] gcd_loop.simps [simp del]

definition gcd_ts :: "int \<Rightarrow> int \<Rightarrow> int" where
  "gcd_ts a b = int (gcd_loop (nat \<bar>a\<bar>) (nat \<bar>b\<bar>))"

text \<open>
  \<open>toFraction\<close>. Every call in the repository passes the integer 16 for \<open>denom\<close>, which
  is an \<^typ>\<open>int\<close> here; \<open>n / g\<close> and \<open>denom / g\<close> divide by a common divisor
  (lemma \<open>gcd_ts_dvd\<close> below), so they are the integer quotients.
\<close>

definition toFraction :: "real \<Rightarrow> int \<Rightarrow> string" where
  "toFraction valueIn denom =
    (let whole = Math_floor (valueIn + 1 / 10 ^ 9);
         frac = valueIn - real_of_int whole;
         n = Math_round (frac * real_of_int denom)
     in if n = 0 then show_int whole
        else if n = denom then show_int (whole + 1)
        else
          let g = gcd_ts n denom;
              nn = n div g;
              dd = denom div g
          in if whole = 0 then show_int nn @ ''/'' @ show_int dd
             else show_int whole @ '' '' @ show_int nn @ ''/'' @ show_int dd)"

definition toFeetInches :: "real \<Rightarrow> string" where
  "toFeetInches inches =
    (let sign = (if inches < 0 then ''-'' else []);
         abs = \<bar>inches\<bar>;
         ft = Math_floor (abs / 12);
         inch = abs - real_of_int ft * 12;
         frac = toFraction inch 16
     in if ft > 0 then sign @ show_int ft @ [CHR 0x27] @ '' '' @ frac @ [CHR 0x22]
        else sign @ frac @ [CHR 0x22])"

section \<open>The perspective calibrator\<close>

text \<open>
  The component holds its state in four React state variables; the model keeps them in one
  record. A click arrives with the fractions \<open>x\<close> and \<open>y\<close> that the handler computes from
  the canvas rectangle. \<open>handleNext\<close> returns the new state and the message of the alert
  that it raises, if any; \<open>handleComplete\<close> returns the \<open>CalibrationData\<close> that it passes
  to \<open>onCalibrationComplete\<close>.
\<close>

record CalibrationPoint =
  point_x :: real
  point_y :: real
  realHeight :: "real option"
  label :: string

record CalibrationData =
  points :: "CalibrationPoint list"
  imageWidth :: real
  imageHeight :: real
  floorY :: real
  vanishingPointX :: "real option"
  vanishingPointY :: "real option"

datatype step = Floor | Reference | Vanishing | Done

record calibration_state =
  st_points :: "CalibrationPoint list"
  st_currentStep :: step
  st_floorY :: real
  st_imageDimensions :: "real \<times> real"

definition initial_state :: calibration_state where
  "initial_state =
    \<lparr> st_points = [], st_currentStep = Floor, st_floorY = 0.9, st_imageDimensions = (0, 0) \<rparr>"

definition handleCanvasClick :: "real \<Rightarrow> real \<Rightarrow> calibration_state \<Rightarrow> calibration_state" where
  "handleCanvasClick cx cy s =
    (if st_currentStep s = Floor then s\<lparr> st_floorY := cy \<rparr>
     else if st_currentStep s = Reference then
       let label' = ''Point '' @ show_nat (length (st_points s) + 1)
       in s\<lparr> st_points := st_points s @
              [\<lparr> point_x = cx, point_y = cy, realHeight = None, label = label' \<rparr>] \<rparr>
     else s)"

definition handleNext :: "calibration_state \<Rightarrow> calibration_state \<times> string option" where
  "handleNext s =
    (if st_currentStep s = Floor then (s\<lparr> st_currentStep := Reference \<rparr>, None)
     else if st_currentStep s = Reference then
       (if length (st_points s) < 2 then (s, Some ''Please mark at least 2 reference points'')
        else (s\<lparr> st_currentStep := Done \<rparr>, None))
     else (s, None))"

definition handleComplete :: "calibration_state \<Rightarrow> CalibrationData" where
  "handleComplete s =
    (let (vpx, vpy) =
           (if length (st_points s) \<ge> 2
            then (Some (foldl (\<lambda>sum p. sum + point_x p) 0 (st_points s)
                          / real (length (st_points s))),
                  Some 0.4)
            else (None, None))
     in \<lparr> points = st_points s,
          imageWidth = fst (st_imageDimensions s),
          imageHeight = snd (st_imageDimensions s),
          floorY = st_floorY s,
          vanishingPointX = vpx,
          vanishingPointY = vpy \<rparr>)"

text \<open>
  The events that change the state: the image has loaded, a click on the canvas, the NEXT
  button (the component renders it in every step but \<open>done\<close>).
\<close>

datatype event = ImageLoaded real real | Click real real | Next

fun handle :: "calibration_state \<Rightarrow> event \<Rightarrow> calibration_state" where
  "handle s (ImageLoaded w h) = s\<lparr> st_imageDimensions := (w, h) \<rparr>"
| "handle s (Click cx cy) = handleCanvasClick cx cy s"
| "handle s Next = (if st_currentStep s \<noteq> Done then fst (handleNext s) else s)"

definition run :: "event list \<Rightarrow> calibration_state" where
  "run es = foldl handle initial_state es"

section \<open>Properties of the layout solver\<close>

lemma Math_round_closest:
  "\<bar>real_of_int (Math_round v) - v\<bar> \<le> \<bar>real_of_int k - v\<bar>"
proof -
  let ?r = "Math_round v"
  have lo: "v - 1 / 2 < real_of_int ?r" and hi: "real_of_int ?r \<le> v + 1 / 2"
    unfolding Math_round_def by linarith+
  consider "k = ?r" | "k \<ge> ?r + 1" | "k \<le> ?r - 1" by linarith
  then show ?thesis
  proof cases
    case 1
    then show ?thesis by simp
  next
    case 2
    then have "real_of_int k \<ge> real_of_int ?r + 1" by linarith
    with lo hi show ?thesis by linarith
  next
    case 3
    then have "real_of_int k \<le> real_of_int ?r - 1" by linarith
    with lo hi show ?thesis by linarith
  qed
qed

text \<open>
  C1. For a positive total rise, a positive tread run and a positive target riser \<open>t\<close>
  (the one given, or the default 7.25), \<open>calcStairs\<close> returns a layout in which
  \<open>numRisers\<close> is \<open>Math.round (totalRiseIn / t)\<close> raised to 2 when it is smaller, and this
  rounded value is an integer closest to \<open>totalRiseIn / t\<close>; \<open>numRisers\<close> is at least 2;
  \<open>exactRiserIn\<close> is \<open>totalRiseIn / numRisers\<close>, so \<open>numRisers * exactRiserIn\<close> is the total
  rise; \<open>numTreads\<close> is \<open>numRisers - 1\<close>; \<open>totalRunIn\<close> is \<open>numTreads * treadRunIn\<close>.
\<close>

theorem calcStairs_layout:
  assumes rise: "StairInputs.totalRiseIn inp > 0"
    and run: "StairInputs.treadRunIn inp > 0"
    and target: "t = (case targetRiserIn inp of None \<Rightarrow> 7.25 | Some v \<Rightarrow> v)"
    and tpos: "t > 0"
  shows "\<exists>out. calcStairs inp = Returns out
    \<and> StairOutputs.numRisers out = max 2 (Math_round (totalRiseIn inp / t))
    \<and> (\<forall>k. \<bar>real_of_int (Math_round (totalRiseIn inp / t)) - totalRiseIn inp / t\<bar>
            \<le> \<bar>real_of_int k - totalRiseIn inp / t\<bar>)
    \<and> StairOutputs.numRisers out \<ge> 2
    \<and> exactRiserIn out = totalRiseIn inp / real_of_int (StairOutputs.numRisers out)
    \<and> real_of_int (StairOutputs.numRisers out) * exactRiserIn out = totalRiseIn inp
    \<and> StairOutputs.numTreads out = StairOutputs.numRisers out - 1
    \<and> totalRunIn out = real_of_int (StairOutputs.numTreads out) * StairInputs.treadRunIn inp"
proof -
  from target tpos have t0: "(case targetRiserIn inp of None \<Rightarrow> 7.25 | Some v \<Rightarrow> v) \<noteq> 0"
    by simp
  show ?thesis
    using rise run t0 target Math_round_closest [of "totalRiseIn inp / t"]
    by (auto simp: calcStairs_def Let_def max_def)
qed

theorem calcStairs_layout_witness:
  "(109.5::real) > 0 \<and> (10::real) > 0 \<and> (7.25::real) > 0 \<and>
   (\<exists>out. calcStairs \<lparr> totalRiseIn = 109.5, StairInputs.treadRunIn = 10,
        targetRiserIn = Some 7.25, finishMode = False, topFinishIn = None,
        bottomFinishIn = None \<rparr> = Returns out
      \<and> StairOutputs.numRisers out = 15 \<and> exactRiserIn out = 7.3
      \<and> StairOutputs.numTreads out = 14 \<and> totalRunIn out = 140)"
  using calcStairs_layout [of "\<lparr> totalRiseIn = 109.5, StairInputs.treadRunIn = 10,
        targetRiserIn = Some 7.25, finishMode = False, topFinishIn = None,
        bottomFinishIn = None \<rparr>" "7.25"]
  by (auto simp: Math_round_def)

text \<open>
  C2. \<open>calcStairs\<close> throws exactly when the total rise or the tread run is not positive:
  the first guard throws when the rise is not positive, the second when the rise is
  positive and the run is not, and they come before anything else. With both positive it
  returns a layout whatever the target riser is: the finite layout (\<open>Returns\<close>) when the
  target riser is not 0; when it is 0 (\<open>NonFiniteArith\<close>), the layout with infinite counts
  and a riser of 0 for the positive zero, the layout with two risers for the negative
  zero. In each of them \<open>treadRunIn\<close> is the input's, \<open>exactRiserIn\<close> is the total rise
  over \<open>numRisers\<close> (0 when \<open>numRisers\<close> is infinite), \<open>remainingMeatIn\<close> is
  \<open>11.25 - exactRiserIn - treadRunIn\<close>, \<open>meatPass\<close> says that it is at least 3.5, and
  \<open>warnings\<close> holds, in this order, the riser message when \<open>exactRiserIn > 7.75\<close>, the
  tread message when \<open>treadRunIn < 10\<close> and the meat message when \<open>meatPass\<close> is false,
  and nothing else: the advisory conditions only append to \<open>warnings\<close>.
\<close>

theorem calcStairs_throws_only_on_guards:
  fixes inp :: StairInputs
  defines "rise \<equiv> totalRiseIn inp"
    and "tread \<equiv> StairInputs.treadRunIn inp"
    and "t \<equiv> (case targetRiserIn inp of None \<Rightarrow> 7.25 | Some v \<Rightarrow> v)"
  defines "n \<equiv> max 2 (Math_round (rise / t))"
  defines "meat \<equiv> (\<lambda>riser. 11.25 - riser - tread)"
  defines "ws \<equiv> (\<lambda>riser. (if riser > 7.75 then [riser_warning] else [])
      @ (if tread < 10 then [tread_warning] else [])
      @ (if \<not> meat riser \<ge> 3.5 then [meat_warning] else []))"
  shows "(\<not> rise > 0 \<longrightarrow> calcStairs inp = Throws (Error ''Total rise must be > 0''))
    \<and> (rise > 0 \<and> \<not> tread > 0 \<longrightarrow> calcStairs inp = Throws (Error ''Tread run must be > 0''))
    \<and> ((\<exists>e. calcStairs inp = Throws e) \<longleftrightarrow> (rise \<le> 0 \<or> tread \<le> 0))
    \<and> (rise > 0 \<and> tread > 0 \<and> t \<noteq> 0 \<longrightarrow>
          (\<exists>out. calcStairs inp = Returns out
             \<and> StairOutputs.numRisers out = n
             \<and> StairOutputs.exactRiserIn out = rise / real_of_int n
             \<and> StairOutputs.treadRunIn out = tread
             \<and> StairOutputs.remainingMeatIn out = meat (rise / real_of_int n)
             \<and> StairOutputs.meatPass out = (meat (rise / real_of_int n) \<ge> 3.5)
             \<and> StairOutputs.warnings out = ws (rise / real_of_int n)))
    \<and> (rise > 0 \<and> tread > 0 \<and> t = 0 \<longrightarrow>
          (\<exists>z. calcStairs inp = NonFiniteArith z
             \<and> InfiniteStairOutputs.numRisers (atPositiveZero z) = Infinity
             \<and> InfiniteStairOutputs.exactRiserIn (atPositiveZero z) = 0
             \<and> InfiniteStairOutputs.treadRunIn (atPositiveZero z) = tread
             \<and> InfiniteStairOutputs.remainingMeatIn (atPositiveZero z) = meat 0
             \<and> InfiniteStairOutputs.meatPass (atPositiveZero z) = (meat 0 \<ge> 3.5)
             \<and> InfiniteStairOutputs.warnings (atPositiveZero z) = ws 0
             \<and> StairOutputs.numRisers (atNegativeZero z) = 2
             \<and> StairOutputs.exactRiserIn (atNegativeZero z) = rise / 2
             \<and> StairOutputs.treadRunIn (atNegativeZero z) = tread
             \<and> StairOutputs.remainingMeatIn (atNegativeZero z) = meat (rise / 2)
             \<and> StairOutputs.meatPass (atNegativeZero z) = (meat (rise / 2) \<ge> 3.5)
             \<and> StairOutputs.warnings (atNegativeZero z) = ws (rise / 2)))"
proof -
  have g1: "\<not> rise > 0 \<longrightarrow> calcStairs inp = Throws (Error ''Total rise must be > 0'')"
    unfolding rise_def by (simp add: calcStairs_def Let_def)
  have g2: "rise > 0 \<and> \<not> tread > 0 \<longrightarrow>
      calcStairs inp = Throws (Error ''Tread run must be > 0'')"
    unfolding rise_def tread_def by (simp add: calcStairs_def Let_def)
  have fin: "rise > 0 \<and> tread > 0 \<and> t \<noteq> 0 \<longrightarrow>
          (\<exists>out. calcStairs inp = Returns out
             \<and> StairOutputs.numRisers out = n
             \<and> StairOutputs.exactRiserIn out = rise / real_of_int n
             \<and> StairOutputs.treadRunIn out = tread
             \<and> StairOutputs.remainingMeatIn out = meat (rise / real_of_int n)
             \<and> StairOutputs.meatPass out = (meat (rise / real_of_int n) \<ge> 3.5)
             \<and> StairOutputs.warnings out = ws (rise / real_of_int n))"
    unfolding ws_def meat_def n_def t_def rise_def tread_def
    by (simp add: calcStairs_def Let_def STRINGER_ACTUAL_DEPTH_IN_def MIN_MEAT_IN_def max_def)
  have inf: "rise > 0 \<and> tread > 0 \<and> t = 0 \<longrightarrow>
          (\<exists>z. calcStairs inp = NonFiniteArith z
             \<and> InfiniteStairOutputs.numRisers (atPositiveZero z) = Infinity
             \<and> InfiniteStairOutputs.exactRiserIn (atPositiveZero z) = 0
             \<and> InfiniteStairOutputs.treadRunIn (atPositiveZero z) = tread
             \<and> InfiniteStairOutputs.remainingMeatIn (atPositiveZero z) = meat 0
             \<and> InfiniteStairOutputs.meatPass (atPositiveZero z) = (meat 0 \<ge> 3.5)
             \<and> InfiniteStairOutputs.warnings (atPositiveZero z) = ws 0
             \<and> StairOutputs.numRisers (atNegativeZero z) = 2
             \<and> StairOutputs.exactRiserIn (atNegativeZero z) = rise / 2
             \<and> StairOutputs.treadRunIn (atNegativeZero z) = tread
             \<and> StairOutputs.remainingMeatIn (atNegativeZero z) = meat (rise / 2)
             \<and> StairOutputs.meatPass (atNegativeZero z) = (meat (rise / 2) \<ge> 3.5)
             \<and> StairOutputs.warnings (atNegativeZero z) = ws (rise / 2))"
    unfolding ws_def meat_def n_def t_def rise_def tread_def
    by (simp add: calcStairs_def Let_def STRINGER_ACTUAL_DEPTH_IN_def MIN_MEAT_IN_def)
  have iff: "(\<exists>e. calcStairs inp = Throws e) \<longleftrightarrow> (rise \<le> 0 \<or> tread \<le> 0)"
  proof
    assume "\<exists>e. calcStairs inp = Throws e"
    with fin inf show "rise \<le> 0 \<or> tread \<le> 0"
      by (cases "t = 0") (auto simp: not_le)
  next
    assume "rise \<le> 0 \<or> tread \<le> 0"
    with g1 g2 show "\<exists>e. calcStairs inp = Throws e"
      by (cases "rise > 0") auto
  qed
  from g1 g2 iff fin inf show ?thesis by (intro conjI)
qed

theorem calcStairs_throws_only_on_guards_witness:
  "(20::real) > 0 \<and> (9::real) > 0 \<and> (10::real) \<noteq> 0 \<and>
   (\<exists>out. calcStairs \<lparr> totalRiseIn = 20, StairInputs.treadRunIn = 9, targetRiserIn = Some 10,
        finishMode = False, topFinishIn = None, bottomFinishIn = None \<rparr> = Returns out
     \<and> StairOutputs.exactRiserIn out = 10 \<and> StairOutputs.treadRunIn out = 9
     \<and> \<not> StairOutputs.meatPass out
     \<and> StairOutputs.warnings out = [riser_warning, tread_warning, meat_warning])
   \<and> (\<exists>z. calcStairs \<lparr> totalRiseIn = 20, StairInputs.treadRunIn = 9, targetRiserIn = Some 0,
        finishMode = False, topFinishIn = None, bottomFinishIn = None \<rparr> = NonFiniteArith z
     \<and> InfiniteStairOutputs.exactRiserIn (atPositiveZero z) = 0
     \<and> InfiniteStairOutputs.treadRunIn (atPositiveZero z) = 9
     \<and> InfiniteStairOutputs.warnings (atPositiveZero z) = [tread_warning, meat_warning]
     \<and> StairOutputs.numRisers (atNegativeZero z) = 2
     \<and> StairOutputs.exactRiserIn (atNegativeZero z) = 10
     \<and> StairOutputs.treadRunIn (atNegativeZero z) = 9
     \<and> StairOutputs.warnings (atNegativeZero z) = [riser_warning, tread_warning, meat_warning])
   \<and> calcStairs \<lparr> totalRiseIn = 0, StairInputs.treadRunIn = 9, targetRiserIn = Some 10,
        finishMode = False, topFinishIn = None, bottomFinishIn = None \<rparr>
       = Throws (Error ''Total rise must be > 0'')
   \<and> calcStairs \<lparr> totalRiseIn = 20, StairInputs.treadRunIn = 0, targetRiserIn = Some 10,
        finishMode = False, topFinishIn = None, bottomFinishIn = None \<rparr>
       = Throws (Error ''Tread run must be > 0'')"
proof -
  note a = calcStairs_throws_only_on_guards [of "\<lparr> totalRiseIn = 20,
        StairInputs.treadRunIn = 9, targetRiserIn = Some 10, finishMode = False,
        topFinishIn = None, bottomFinishIn = None \<rparr>"]
  note b = calcStairs_throws_only_on_guards [of "\<lparr> totalRiseIn = 20,
        StairInputs.treadRunIn = 9, targetRiserIn = Some 0, finishMode = False,
        topFinishIn = None, bottomFinishIn = None \<rparr>"]
  note c = calcStairs_throws_only_on_guards [of "\<lparr> totalRiseIn = 0,
        StairInputs.treadRunIn = 9, targetRiserIn = Some 10, finishMode = False,
        topFinishIn = None, bottomFinishIn = None \<rparr>"]
  note d = calcStairs_throws_only_on_guards [of "\<lparr> totalRiseIn = 20,
        StairInputs.treadRunIn = 0, targetRiserIn = Some 10, finishMode = False,
        topFinishIn = None, bottomFinishIn = None \<rparr>"]
  have r: "Math_round 2 = 2" by (simp add: Math_round_def)
  from a have a': "\<exists>out. calcStairs \<lparr> totalRiseIn = 20, StairInputs.treadRunIn = 9,
        targetRiserIn = Some 10, finishMode = False, topFinishIn = None,
        bottomFinishIn = None \<rparr> = Returns out
     \<and> StairOutputs.exactRiserIn out = 10 \<and> StairOutputs.treadRunIn out = 9
     \<and> \<not> StairOutputs.meatPass out
     \<and> StairOutputs.warnings out = [riser_warning, tread_warning, meat_warning]"
    by (auto simp: r)
  from b have b': "\<exists>z. calcStairs \<lparr> totalRiseIn = 20, StairInputs.treadRunIn = 9,
        targetRiserIn = Some 0, finishMode = False, topFinishIn = None,
        bottomFinishIn = None \<rparr> = NonFiniteArith z
     \<and> InfiniteStairOutputs.exactRiserIn (atPositiveZero z) = 0
     \<and> InfiniteStairOutputs.treadRunIn (atPositiveZero z) = 9
     \<and> InfiniteStairOutputs.warnings (atPositiveZero z) = [tread_warning, meat_warning]
     \<and> StairOutputs.numRisers (atNegativeZero z) = 2
     \<and> StairOutputs.exactRiserIn (atNegativeZero z) = 10
     \<and> StairOutputs.treadRunIn (atNegativeZero z) = 9
     \<and> StairOutputs.warnings (atNegativeZero z) = [riser_warning, tread_warning, meat_warning]"
    by auto
  from c have c': "calcStairs \<lparr> totalRiseIn = 0, StairInputs.treadRunIn = 9,
        targetRiserIn = Some 10, finishMode = False, topFinishIn = None,
        bottomFinishIn = None \<rparr> = Throws (Error ''Total rise must be > 0'')"
    by simp
  from d have d': "calcStairs \<lparr> totalRiseIn = 20, StairInputs.treadRunIn = 0,
        targetRiserIn = Some 10, finishMode = False, topFinishIn = None,
        bottomFinishIn = None \<rparr> = Throws (Error ''Tread run must be > 0'')"
    by simp
  from a' b' c' d' show ?thesis by simp
qed

section \<open>Properties of the materials estimator\<close>

text \<open>
  C5. For a positive stair width and a positive spacing, \<open>calcMaterials\<close> returns
  \<open>numStringers\<close> equal to \<open>ceil (stairWidthIn / stringerOcin) + 1\<close> raised to 2 when it is
  smaller and, for a width of at most 36, raised to 3 when it is smaller. It is at least 2,
  and at least 3 for every width of at most 36, whatever the spacing.
\<close>

theorem calcMaterials_numStringers:
  assumes "stairWidthIn m > 0" and "stringerOcin m > 0"
  shows "\<exists>out. calcMaterials m = Returns out
    \<and> numStringers out =
        (if stairWidthIn m \<le> 36
         then max (max 2 (Math_ceil (stairWidthIn m / stringerOcin m) + 1)) 3
         else max 2 (Math_ceil (stairWidthIn m / stringerOcin m) + 1))
    \<and> numStringers out \<ge> 2
    \<and> (stairWidthIn m \<le> 36 \<longrightarrow> numStringers out \<ge> 3)"
  using assms by (auto simp: calcMaterials_def Let_def max_def)

theorem calcMaterials_numStringers_witness:
  "(36::real) > 0 \<and> (48::real) > 0 \<and>
   (\<exists>out. calcMaterials \<lparr> stairWidthIn = 36, stringerOcin = 48, closedStair = True,
        numTreads = 14, numRisers = 15, stringerLenIn = 177 \<rparr> = Returns out
      \<and> numStringers out = 3)"
  using calcMaterials_numStringers [of "\<lparr> stairWidthIn = 36, stringerOcin = 48,
        closedStair = True, numTreads = 14, numRisers = 15, stringerLenIn = 177 \<rparr>"]
  by (auto simp: Math_ceil_def)

section \<open>Properties of the geometry builder\<close>


lemma stepLoop_closed:
  "stepLoop sd xPos step path =
     path @ concat (map (\<lambda>k. [top_of_riser sd xPos k, back_of_tread sd xPos k])
        [step..StairOutputs.numTreads sd - 1])"
proof (induction sd xPos step path rule: stepLoop.induct)
  case (1 sd xPos step path)
  show ?case
  proof (cases "step < StairOutputs.numTreads sd")
    case True
    then have u: "[step..StairOutputs.numTreads sd - 1] = step # [step + 1..StairOutputs.numTreads sd - 1]"
      by (simp add: upto_rec1)
    have "stepLoop sd xPos step path =
        stepLoop sd xPos (step + 1) (path @ [top_of_riser sd xPos step, back_of_tread sd xPos step])"
      using True by (subst stepLoop.simps) (simp add: Let_def top_of_riser_def back_of_tread_def)
    also have "\<dots> = (path @ [top_of_riser sd xPos step, back_of_tread sd xPos step])
        @ concat (map (\<lambda>k. [top_of_riser sd xPos k, back_of_tread sd xPos k])
            [step + 1..StairOutputs.numTreads sd - 1])"
      using 1 [OF True refl refl] top_of_riser_def [of sd xPos step, symmetric]
        back_of_tread_def [of sd xPos step, symmetric] by simp
    finally show ?thesis by (simp add: u)
  next
    case False
    then show ?thesis
      by (subst stepLoop.simps) simp
  qed
qed

lemma stringerLoop_closed:
  "stringerLoop sd n sp i acc =
     acc @ map (\<lambda>j. stringer_outline sd (real_of_int j * sp)) [i..n - 1]"
proof (induction sd n sp i acc rule: stringerLoop.induct)
  case (1 sd n sp i acc)
  show ?case
  proof (cases "i < n")
    case True
    then have u: "[i..n - 1] = i # [i + 1..n - 1]"
      by (simp add: upto_rec1)
    have "stringerLoop sd n sp i acc =
        stringerLoop sd n sp (i + 1) (acc @ [stringer_outline sd (real_of_int i * sp)])"
      using True
      by (subst stringerLoop.simps) (simp add: Let_def stringer_outline_def stepLoop_closed)
    also have "\<dots> = (acc @ [stringer_outline sd (real_of_int i * sp)])
        @ map (\<lambda>j. stringer_outline sd (real_of_int j * sp)) [i + 1..n - 1]"
      using 1 [OF True refl refl refl refl refl]
      by (simp add: stringer_outline_def stepLoop_closed)
    finally show ?thesis by (simp add: u)
  next
    case False
    then show ?thesis
      by (subst stringerLoop.simps) simp
  qed
qed

lemma length_stringer_outline:
  "length (stringer_outline sd xPos) = 1 + 2 * nat (StairOutputs.numTreads sd) + 1"
proof -
  have "length (concat (map (\<lambda>k. [top_of_riser sd xPos k, back_of_tread sd xPos k]) ks))
      = 2 * length ks" for ks
    by (induction ks) simp_all
  then show ?thesis by (simp add: stringer_outline_def)
qed

lemma vec_x_stringer_outline:
  "v \<in> set (stringer_outline sd xPos) \<Longrightarrow> vec_x v = xPos"
  by (auto simp: stringer_outline_def top_of_riser_def back_of_tread_def)

lemma riserLoop_length:
  "length (riserLoop sd w step acc) = length acc + nat (StairOutputs.numRisers sd - step)"
proof (induction sd w step acc rule: riserLoop.induct)
  case (1 sd w step acc)
  show ?case
  proof (cases "step < StairOutputs.numRisers sd")
    case True
    then show ?thesis
      using 1 [OF True refl refl refl refl]
      by (subst riserLoop.simps) (simp add: Let_def)
  next
    case False
    then show ?thesis
      by (subst riserLoop.simps) simp
  qed
qed

lemma riserLoop_quads:
  "\<forall>r \<in> set acc. length r = 4 \<Longrightarrow> \<forall>r \<in> set (riserLoop sd w step acc). length r = 4"
proof (induction sd w step acc rule: riserLoop.induct)
  case (1 sd w step acc)
  show ?case
  proof (cases "step < StairOutputs.numRisers sd")
    case True
    then show ?thesis
      using 1(1) [OF True refl refl refl refl] 1(2)
      by (subst riserLoop.simps) (simp add: Let_def)
  next
    case False
    then show ?thesis
      using 1(2) by (subst riserLoop.simps) simp
  qed
qed


lemma concat_pairs_nth:
  "k < length ks \<Longrightarrow>
     concat (map (\<lambda>j. [f j, g j]) ks) ! (2 * k) = f (ks ! k)
   \<and> concat (map (\<lambda>j. [f j, g j]) ks) ! (2 * k + 1) = g (ks ! k)"
proof (induction ks arbitrary: k)
  case Nil
  then show ?case by simp
next
  case (Cons a ks)
  show ?case
  proof (cases k)
    case 0
    then show ?thesis by simp
  next
    case (Suc m)
    with Cons.prems have "m < length ks" by simp
    from Cons.IH [OF this] show ?thesis using Suc by simp
  qed
qed

lemma calcStairs_numTreads_pos:
  "calcStairs inp = Returns sd \<Longrightarrow> StairOutputs.numTreads sd \<ge> 1"
  by (auto simp: calcStairs_def Let_def split: if_splits)

lemma stringers_closed:
  assumes "buildStaircaseGeometry sd mat w = Returns g"
  shows "stringers g =
    map (\<lambda>j. stringer_outline sd (real_of_int j * (w / real_of_int (numStringers mat - 1))))
      [0..numStringers mat - 1]"
  using assms
  by (auto simp: buildStaircaseGeometry_def Let_def stringerLoop_closed split: if_splits)

text \<open>
  C9. For a layout \<open>sd\<close> that the solver returns, every stringer path of the geometry has
  \<open>1 + 2 * numTreads + 1\<close> vertices and is the outline of the specification at some
  \<open>xPos\<close>: the bottom origin first, then for each tread \<open>k\<close> (from 0) the top-of-riser
  point at index \<open>1 + 2 * k\<close> and the back-of-tread point at index \<open>2 + 2 * k\<close>, and the
  top landing last.
\<close>

theorem stringer_path_vertices:
  assumes solver: "calcStairs inp = Returns sd"
    and build: "buildStaircaseGeometry sd mat w = Returns g"
    and p: "p \<in> set (stringers g)"
  shows "int (length p) = 1 + 2 * StairOutputs.numTreads sd + 1
    \<and> (\<exists>xPos. p = stringer_outline sd xPos
          \<and> p ! 0 = Vector3 xPos 0 0
          \<and> (\<forall>k. 0 \<le> k \<and> k < StairOutputs.numTreads sd \<longrightarrow>
                p ! nat (1 + 2 * k) = top_of_riser sd xPos k
              \<and> p ! nat (2 + 2 * k) = back_of_tread sd xPos k)
          \<and> last p = Vector3 xPos
                (real_of_int (StairOutputs.numRisers sd) * exactRiserIn sd) (totalRunIn sd))"
proof -
  from p stringers_closed [OF build] obtain xPos where px: "p = stringer_outline sd xPos"
    by auto
  have n: "StairOutputs.numTreads sd \<ge> 1"
    using solver by (rule calcStairs_numTreads_pos)
  have len: "int (length p) = 1 + 2 * StairOutputs.numTreads sd + 1"
    using n by (simp add: px length_stringer_outline)
  let ?ks = "[0..StairOutputs.numTreads sd - 1]"
  let ?mid = "concat (map (\<lambda>k. [top_of_riser sd xPos k, back_of_tread sd xPos k]) ?ks)"
  have p_eq: "p = Vector3 xPos 0 0 # ?mid
      @ [Vector3 xPos (real_of_int (StairOutputs.numRisers sd) * exactRiserIn sd) (totalRunIn sd)]"
    by (simp add: px stringer_outline_def)
  have mid_len: "length ?mid = 2 * nat (StairOutputs.numTreads sd)"
    using length_stringer_outline [of sd xPos] by (simp add: stringer_outline_def)
  have steps: "p ! nat (1 + 2 * k) = top_of_riser sd xPos k
      \<and> p ! nat (2 + 2 * k) = back_of_tread sd xPos k"
    if k: "0 \<le> k \<and> k < StairOutputs.numTreads sd" for k
  proof -
    from k have kl: "nat k < length ?ks" by simp
    from k have kk: "?ks ! nat k = k" by simp
    have i1: "nat (1 + 2 * k) = Suc (2 * nat k)" and i2: "nat (2 + 2 * k) = Suc (2 * nat k + 1)"
      using k by linarith+
    have b1: "2 * nat k < length ?mid" and b2: "2 * nat k + 1 < length ?mid"
      using k mid_len by linarith+
    from concat_pairs_nth [OF kl, of "top_of_riser sd xPos" "back_of_tread sd xPos"]
    have "?mid ! (2 * nat k) = top_of_riser sd xPos k"
      and "?mid ! (2 * nat k + 1) = back_of_tread sd xPos k"
      unfolding kk by blast+
    then show ?thesis
      using b1 b2 unfolding i1 i2 by (subst (1 2) p_eq) (simp add: nth_append)
  qed
  have "p ! 0 = Vector3 xPos 0 0" by (subst p_eq) simp
  moreover have "last p = Vector3 xPos
      (real_of_int (StairOutputs.numRisers sd) * exactRiserIn sd) (totalRunIn sd)"
    by (subst p_eq) simp
  ultimately show ?thesis using len px steps by blast
qed


theorem stringer_path_vertices_witness:
  "\<exists>sd g. calcStairs \<lparr> totalRiseIn = 21, StairInputs.treadRunIn = 10, targetRiserIn = Some 7,
        finishMode = False, topFinishIn = None, bottomFinishIn = None \<rparr> = Returns sd
     \<and> buildStaircaseGeometry sd \<lparr> numStringers = 3, suggestedStockLenFt = 8, treadsQty = 2,
          risersQty = 3, notes = [] \<rparr> 36 = Returns g
     \<and> stringers g \<noteq> []
     \<and> (\<forall>p \<in> set (stringers g). length p = 6)"
proof -
  let ?inp = "\<lparr> totalRiseIn = 21, StairInputs.treadRunIn = 10, targetRiserIn = Some 7,
        finishMode = False, topFinishIn = None, bottomFinishIn = None \<rparr>"
  let ?mat = "\<lparr> numStringers = 3, suggestedStockLenFt = 8, treadsQty = 2,
          risersQty = 3, notes = [] \<rparr>"
  obtain sd where sd: "calcStairs ?inp = Returns sd" and nt: "StairOutputs.numTreads sd = 2"
    by (simp add: calcStairs_def Let_def Math_round_def)
  obtain g where g: "buildStaircaseGeometry sd ?mat 36 = Returns g"
    by (simp add: buildStaircaseGeometry_def Let_def)
  have ne: "stringers g \<noteq> []"
    using stringers_closed [OF g] by (simp add: upto_rec1)
  have "length p = 6" if "p \<in> set (stringers g)" for p
    using stringer_path_vertices [OF sd g that] nt by simp
  with sd g ne show ?thesis by blast
qed

lemma hd_last_stringer_outline:
  "stringer_outline sd xPos \<noteq> []
   \<and> hd (stringer_outline sd xPos) = Vector3 xPos 0 0
   \<and> last (stringer_outline sd xPos)
       = Vector3 xPos (real_of_int (StairOutputs.numRisers sd) * exactRiserIn sd) (totalRunIn sd)"
  by (simp add: stringer_outline_def)

text \<open>
  C10. With \<open>numStringers \<ge> 2\<close> the builder returns as many stringer paths as
  \<open>numStringers\<close>. The path of index \<open>i\<close> is the whole outline (origin, the two points
  of every tread, top landing: \<open>1 + 2 * numTreads + 1\<close> vertices, so never empty) at
  \<open>xPos = i * (stairWidthIn / (numStringers - 1))\<close>: it starts at the vertex
  \<open>(xPos, 0, 0)\<close>, ends at the top landing \<open>(xPos, numRisers * exactRiserIn, totalRunIn)\<close>,
  and every vertex of it has this x-coordinate. The first path starts at \<open>(0, 0, 0)\<close> and
  has all its vertices at x = 0; the last starts at \<open>(stairWidthIn, 0, 0)\<close> and has all its
  vertices at x = \<open>stairWidthIn\<close>. With \<open>numStringers = 1\<close> the spacing is a division by
  zero.
\<close>

theorem stringer_spacing:
  "(numStringers mat = 1 \<longrightarrow> buildStaircaseGeometry sd mat w = NonFiniteArith ())
   \<and> (numStringers mat \<ge> 2 \<longrightarrow>
        (\<exists>g. buildStaircaseGeometry sd mat w = Returns g
           \<and> int (length (stringers g)) = numStringers mat
           \<and> (\<forall>i < length (stringers g).
                 stringers g ! i
                   = stringer_outline sd (real i * (w / real_of_int (numStringers mat - 1)))
               \<and> length (stringers g ! i) = 1 + 2 * nat (StairOutputs.numTreads sd) + 1
               \<and> hd (stringers g ! i)
                   = Vector3 (real i * (w / real_of_int (numStringers mat - 1))) 0 0
               \<and> last (stringers g ! i)
                   = Vector3 (real i * (w / real_of_int (numStringers mat - 1)))
                       (real_of_int (StairOutputs.numRisers sd) * exactRiserIn sd) (totalRunIn sd)
               \<and> (\<forall>v \<in> set (stringers g ! i).
                     vec_x v = real i * (w / real_of_int (numStringers mat - 1))))
           \<and> hd (hd (stringers g)) = Vector3 0 0 0
           \<and> hd (last (stringers g)) = Vector3 w 0 0
           \<and> (\<forall>v \<in> set (hd (stringers g)). vec_x v = 0)
           \<and> (\<forall>v \<in> set (last (stringers g)). vec_x v = w)))"
proof (intro conjI impI)
  assume "numStringers mat = 1"
  then show "buildStaircaseGeometry sd mat w = NonFiniteArith ()"
    by (simp add: buildStaircaseGeometry_def)
next
  assume n: "numStringers mat \<ge> 2"
  let ?sp = "w / real_of_int (numStringers mat - 1)"
  let ?f = "\<lambda>j. stringer_outline sd (real_of_int j * ?sp)"
  let ?top = "\<lambda>x. Vector3 x (real_of_int (StairOutputs.numRisers sd) * exactRiserIn sd)
      (totalRunIn sd)"
  from n obtain g where g: "buildStaircaseGeometry sd mat w = Returns g"
    by (auto simp: buildStaircaseGeometry_def Let_def)
  have sg: "stringers g = map ?f [0..numStringers mat - 1]"
    using g by (rule stringers_closed)
  have len: "int (length (stringers g)) = numStringers mat"
    using n by (simp add: sg)
  have path: "stringers g ! i = stringer_outline sd (real i * ?sp)"
    if "i < length (stringers g)" for i
    using that by (simp add: sg)
  have each: "stringers g ! i = stringer_outline sd (real i * ?sp)
      \<and> length (stringers g ! i) = 1 + 2 * nat (StairOutputs.numTreads sd) + 1
      \<and> hd (stringers g ! i) = Vector3 (real i * ?sp) 0 0
      \<and> last (stringers g ! i) = ?top (real i * ?sp)
      \<and> (\<forall>v \<in> set (stringers g ! i). vec_x v = real i * ?sp)"
    if i: "i < length (stringers g)" for i
  proof -
    note p = path [OF i]
    have "length (stringers g ! i) = 1 + 2 * nat (StairOutputs.numTreads sd) + 1"
      unfolding p by (rule length_stringer_outline)
    moreover have "hd (stringers g ! i) = Vector3 (real i * ?sp) 0 0"
      and "last (stringers g ! i) = ?top (real i * ?sp)"
      unfolding p using hd_last_stringer_outline [of sd "real i * ?sp"] by blast+
    moreover have "\<forall>v \<in> set (stringers g ! i). vec_x v = real i * ?sp"
      unfolding p using vec_x_stringer_outline by blast
    ultimately show ?thesis using p by blast
  qed
  have ne: "stringers g \<noteq> []" using len n by auto
  then have zero: "0 < length (stringers g)" by simp
  have hd0: "hd (stringers g) = stringers g ! 0" using ne by (simp add: hd_conv_nth)
  let ?m = "length (stringers g) - 1"
  have ml: "?m < length (stringers g)" using ne by simp
  have l: "last (stringers g) = stringers g ! ?m" using ne by (simp add: last_conv_nth)
  have m: "real ?m = real_of_int (numStringers mat - 1)"
  proof -
    have "int ?m = int (length (stringers g)) - 1" using ne by (simp add: of_nat_diff Suc_leI)
    then have "int ?m = numStringers mat - 1" using len by simp
    then have "real_of_int (int ?m) = real_of_int (numStringers mat - 1)" by simp
    then show ?thesis by simp
  qed
  have mw: "real ?m * ?sp = w" using n unfolding m by simp
  from each [OF zero] have z1: "hd (stringers g ! 0) = Vector3 (real 0 * ?sp) 0 0"
    and z2: "\<forall>v \<in> set (stringers g ! 0). vec_x v = real 0 * ?sp"
    by blast+
  from each [OF ml] have m1: "hd (stringers g ! ?m) = Vector3 (real ?m * ?sp) 0 0"
    and m2: "\<forall>v \<in> set (stringers g ! ?m). vec_x v = real ?m * ?sp"
    by blast+
  have first_hd: "hd (hd (stringers g)) = Vector3 0 0 0"
    unfolding hd0 using z1 by simp
  have last_hd: "hd (last (stringers g)) = Vector3 w 0 0"
    unfolding l using m1 unfolding mw .
  have first: "\<forall>v \<in> set (hd (stringers g)). vec_x v = 0"
    unfolding hd0 using z2 by simp
  have lastx: "\<forall>v \<in> set (last (stringers g)). vec_x v = w"
    unfolding l using m2 unfolding mw .
  show "\<exists>g. buildStaircaseGeometry sd mat w = Returns g
           \<and> int (length (stringers g)) = numStringers mat
           \<and> (\<forall>i < length (stringers g).
                 stringers g ! i
                   = stringer_outline sd (real i * (w / real_of_int (numStringers mat - 1)))
               \<and> length (stringers g ! i) = 1 + 2 * nat (StairOutputs.numTreads sd) + 1
               \<and> hd (stringers g ! i)
                   = Vector3 (real i * (w / real_of_int (numStringers mat - 1))) 0 0
               \<and> last (stringers g ! i)
                   = Vector3 (real i * (w / real_of_int (numStringers mat - 1)))
                       (real_of_int (StairOutputs.numRisers sd) * exactRiserIn sd) (totalRunIn sd)
               \<and> (\<forall>v \<in> set (stringers g ! i).
                     vec_x v = real i * (w / real_of_int (numStringers mat - 1))))
           \<and> hd (hd (stringers g)) = Vector3 0 0 0
           \<and> hd (last (stringers g)) = Vector3 w 0 0
           \<and> (\<forall>v \<in> set (hd (stringers g)). vec_x v = 0)
           \<and> (\<forall>v \<in> set (last (stringers g)). vec_x v = w)"
    using g len each first_hd last_hd first lastx by blast
qed

theorem stringer_spacing_witness:
  "(3::int) \<ge> 2 \<and>
   (\<exists>g. buildStaircaseGeometry
        \<lparr> StairOutputs.numRisers = 3, StairOutputs.numTreads = 2, exactRiserIn = 7,
          StairOutputs.treadRunIn = 10, totalRunIn = 20, angleDeg = 35,
          StairOutputs.stringerLenIn = 29, firstRiserIn = 7, lastRiserIn = 7,
          remainingMeatIn = - 5.75, meatPass = False, warnings = [meat_warning] \<rparr>
        \<lparr> numStringers = 3, suggestedStockLenFt = 8, treadsQty = 2, risersQty = 3,
          notes = [] \<rparr> 36 = Returns g
      \<and> length (stringers g) = 3
      \<and> length (stringers g ! 0) = 6 \<and> length (stringers g ! 1) = 6
      \<and> length (stringers g ! 2) = 6
      \<and> hd (stringers g ! 0) = Vector3 0 0 0 \<and> last (stringers g ! 0) = Vector3 0 21 20
      \<and> hd (stringers g ! 1) = Vector3 18 0 0 \<and> last (stringers g ! 1) = Vector3 18 21 20
      \<and> hd (stringers g ! 2) = Vector3 36 0 0 \<and> last (stringers g ! 2) = Vector3 36 21 20
      \<and> (\<forall>v \<in> set (stringers g ! 0). vec_x v = 0)
      \<and> (\<forall>v \<in> set (stringers g ! 1). vec_x v = 18)
      \<and> (\<forall>v \<in> set (stringers g ! 2). vec_x v = 36))"
proof -
  let ?sd = "\<lparr> StairOutputs.numRisers = 3, StairOutputs.numTreads = 2, exactRiserIn = 7,
          StairOutputs.treadRunIn = 10, totalRunIn = 20, angleDeg = 35,
          StairOutputs.stringerLenIn = 29, firstRiserIn = 7, lastRiserIn = 7,
          remainingMeatIn = - 5.75, meatPass = False, warnings = [meat_warning] \<rparr>"
  let ?mat = "\<lparr> numStringers = 3, suggestedStockLenFt = 8, treadsQty = 2, risersQty = 3,
          notes = [] \<rparr>"
  have n: "numStringers ?mat \<ge> 2" by simp
  from stringer_spacing [of ?mat ?sd 36, THEN conjunct2, THEN mp, OF n]
  obtain g where g: "buildStaircaseGeometry ?sd ?mat 36 = Returns g"
    and len: "int (length (stringers g)) = numStringers ?mat"
    and each: "\<forall>i < length (stringers g).
        length (stringers g ! i) = 1 + 2 * nat (StairOutputs.numTreads ?sd) + 1
        \<and> hd (stringers g ! i)
            = Vector3 (real i * (36 / real_of_int (numStringers ?mat - 1))) 0 0
        \<and> last (stringers g ! i)
            = Vector3 (real i * (36 / real_of_int (numStringers ?mat - 1)))
                (real_of_int (StairOutputs.numRisers ?sd) * exactRiserIn ?sd) (totalRunIn ?sd)
        \<and> (\<forall>v \<in> set (stringers g ! i).
              vec_x v = real i * (36 / real_of_int (numStringers ?mat - 1)))"
    by blast
  from len have l3: "length (stringers g) = 3" by simp
  have e: "length (stringers g ! i) = 6
      \<and> hd (stringers g ! i) = Vector3 (real i * 18) 0 0
      \<and> last (stringers g ! i) = Vector3 (real i * 18) 21 20
      \<and> (\<forall>v \<in> set (stringers g ! i). vec_x v = real i * 18)" if "i < 3" for i
    using each [rule_format, of i] that l3 by simp
  from e [of 0] e [of 1] e [of 2] l3 g show ?thesis by simp
qed

section \<open>The risers of an open stair\<close>

text \<open>
  The riser rectangles are as many as \<open>numRisers\<close> and have four vertices each, whatever
  the materials say.
\<close>

lemma risers_length:
  assumes "buildStaircaseGeometry sd mat w = Returns g"
  shows "length (risers g) = nat (StairOutputs.numRisers sd)"
  using assms
  by (auto simp: buildStaircaseGeometry_def Let_def riserLoop_length split: if_splits)

lemma risers_quads:
  assumes "buildStaircaseGeometry sd mat w = Returns g"
  shows "\<forall>r \<in> set (risers g). length r = 4"
proof -
  have "\<forall>r \<in> set (riserLoop sd w 0 []). length r = 4"
    by (rule riserLoop_quads) simp
  with assms show ?thesis
    by (auto simp: buildStaircaseGeometry_def Let_def split: if_splits)
qed

text \<open>
  C3 says that the builder emits riser rectangles only for a closed stair. The builder never
  looks at the materials' \<open>risersQty\<close> (nor at any closed/open flag): it emits
  \<open>numRisers\<close> rectangles whatever the stair is. Here the materials are those of an open
  stair (\<open>closedStair = False\<close>, so \<open>risersQty = 0\<close>) and the geometry has 15 risers.
\<close>

theorem open_stair_geometry_has_risers:
  "\<exists>sd mat g.
     calcStairs \<lparr> totalRiseIn = 109.5, StairInputs.treadRunIn = 10, targetRiserIn = Some 7.25,
        finishMode = False, topFinishIn = None, bottomFinishIn = None \<rparr> = Returns sd
   \<and> calcMaterials \<lparr> stairWidthIn = 36, stringerOcin = 16, closedStair = False,
        numTreads = StairOutputs.numTreads sd, numRisers = StairOutputs.numRisers sd,
        stringerLenIn = StairOutputs.stringerLenIn sd \<rparr> = Returns mat
   \<and> risersQty mat = 0
   \<and> buildStaircaseGeometry sd mat 36 = Returns g
   \<and> length (risers g) = 15"
proof -
  let ?inp = "\<lparr> totalRiseIn = 109.5, StairInputs.treadRunIn = 10, targetRiserIn = Some 7.25,
        finishMode = False, topFinishIn = None, bottomFinishIn = None \<rparr>"
  obtain sd where sd: "calcStairs ?inp = Returns sd" and nr: "StairOutputs.numRisers sd = 15"
    by (simp add: calcStairs_def Let_def Math_round_def)
  let ?m = "\<lparr> stairWidthIn = 36, stringerOcin = 16, closedStair = False,
        numTreads = StairOutputs.numTreads sd, numRisers = StairOutputs.numRisers sd,
        stringerLenIn = StairOutputs.stringerLenIn sd \<rparr>"
  obtain mat where mat: "calcMaterials ?m = Returns mat" and rq: "risersQty mat = 0"
    and ns: "numStringers mat = 4"
    by (simp add: calcMaterials_def Let_def Math_ceil_def)
  obtain g where g: "buildStaircaseGeometry sd mat 36 = Returns g"
    using ns by (simp add: buildStaircaseGeometry_def Let_def)
  have "length (risers g) = 15"
    using risers_length [OF g] nr by simp
  with sd mat rq g show ?thesis by blast
qed


section \<open>Properties of the perspective calibrator\<close>


lemma foldl_point_x: "foldl (\<lambda>sum p. sum + point_x p) a ps = a + sum_list (map point_x ps)"
  by (induction ps arbitrary: a) simp_all

lemma handle_done_points:
  assumes "st_currentStep s = Done \<longrightarrow> 2 \<le> length (st_points s)"
  shows "st_currentStep (handle s e) = Done \<longrightarrow> 2 \<le> length (st_points (handle s e))"
  using assms
  by (cases e) (auto simp: handleCanvasClick_def handleNext_def Let_def)

lemma foldl_handle_done_points:
  assumes "st_currentStep s = Done \<longrightarrow> 2 \<le> length (st_points s)"
  shows "st_currentStep (foldl handle s es) = Done \<longrightarrow> 2 \<le> length (st_points (foldl handle s es))"
  using assms
proof (induction es arbitrary: s)
  case Nil
  then show ?case by simp
next
  case (Cons e es)
  from Cons.IH [OF handle_done_points [OF Cons.prems]] show ?case by simp
qed

text \<open>
  C8. In the step \<open>reference\<close>, \<open>handleNext\<close> with fewer than two points raises the
  alert and leaves the state as it is; with two points or more it moves to \<open>done\<close> without
  an alert. With two points or more \<open>handleComplete\<close> emits the mean of the points'
  x-fractions as \<open>vanishingPointX\<close> and 0.4 as \<open>vanishingPointY\<close>. Completion is offered
  in the step \<open>done\<close> only, and every state in that step, whatever the clicks and presses
  that led to it, has at least two points.
\<close>

theorem calibration_advance_and_complete:
  "(st_currentStep s = Reference \<and> length (st_points s) < 2 \<longrightarrow>
      handleNext s = (s, Some ''Please mark at least 2 reference points''))
   \<and> (st_currentStep s = Reference \<and> length (st_points s) \<ge> 2 \<longrightarrow>
      handleNext s = (s\<lparr> st_currentStep := Done \<rparr>, None))
   \<and> (length (st_points s) \<ge> 2 \<longrightarrow>
      vanishingPointX (handleComplete s)
        = Some (sum_list (map point_x (st_points s)) / real (length (st_points s)))
      \<and> vanishingPointY (handleComplete s) = Some 0.4
      \<and> points (handleComplete s) = st_points s
      \<and> floorY (handleComplete s) = st_floorY s)
   \<and> (st_currentStep (run es) = Done \<longrightarrow> length (st_points (run es)) \<ge> 2)"
proof -
  have "st_currentStep (run es) = Done \<longrightarrow> length (st_points (run es)) \<ge> 2"
    unfolding run_def
    by (rule foldl_handle_done_points) (simp add: initial_state_def)
  then show ?thesis
    by (simp add: handleNext_def handleComplete_def foldl_point_x)
qed

theorem calibration_advance_and_complete_witness:
  "st_currentStep (run [Next, Click 0.2 0.5]) = Reference
   \<and> length (st_points (run [Next, Click 0.2 0.5])) < 2
   \<and> handleNext (run [Next, Click 0.2 0.5])
       = (run [Next, Click 0.2 0.5], Some ''Please mark at least 2 reference points'')
   \<and> st_currentStep (run [Next, Click 0.2 0.5, Next, Click 0.6 0.7, Next]) = Done
   \<and> vanishingPointX (handleComplete (run [Next, Click 0.2 0.5, Next, Click 0.6 0.7, Next]))
       = Some 0.4
   \<and> vanishingPointY (handleComplete (run [Next, Click 0.2 0.5, Next, Click 0.6 0.7, Next]))
       = Some 0.4"
proof -
  have a: "st_currentStep (run [Next, Click 0.2 0.5]) = Reference"
    and b: "length (st_points (run [Next, Click 0.2 0.5])) < 2"
    by (simp_all add: run_def initial_state_def handleNext_def handleCanvasClick_def Let_def)
  have c: "st_currentStep (run [Next, Click 0.2 0.5, Next, Click 0.6 0.7, Next]) = Done"
    and d: "map point_x (st_points (run [Next, Click 0.2 0.5, Next, Click 0.6 0.7, Next])) = [0.2, 0.6]"
    by (simp_all add: run_def initial_state_def handleNext_def handleCanvasClick_def Let_def)
  from d have e: "length (st_points (run [Next, Click 0.2 0.5, Next, Click 0.6 0.7, Next])) = 2"
    by (metis length_map length_Cons list.size(3) One_nat_def Suc_1)
  show ?thesis
    using a b c d e
      calibration_advance_and_complete [of "run [Next, Click 0.2 0.5]" "[]"]
      calibration_advance_and_complete
        [of "run [Next, Click 0.2 0.5, Next, Click 0.6 0.7, Next]" "[]"]
    by simp
qed


section \<open>Properties of the formatters\<close>

text \<open>The loop of \<open>gcd\<close> computes the greatest common divisor.\<close>

lemma gcd_loop_eq: "gcd_loop a b = gcd a b"
proof (induction a b rule: gcd_loop.induct)
  case (1 a b)
  show ?case
  proof (cases "b = 0")
    case True
    then show ?thesis by (subst gcd_loop.simps) simp
  next
    case False
    then have "gcd_loop a b = gcd b (a mod b)"
      using 1 by (subst gcd_loop.simps) simp
    also have "\<dots> = gcd a b"
      by (metis gcd.commute gcd_red_nat)
    finally show ?thesis .
  qed
qed

lemma gcd_ts_eq: "gcd_ts a b = gcd a b"
  unfolding gcd_ts_def gcd_loop_eq by (rule gcd_int_def [symmetric])

lemma gcd_ts_dvd: "gcd_ts a b dvd a \<and> gcd_ts a b dvd b"
  by (simp add: gcd_ts_eq)

lemma nearest_multiple:
  fixes v :: real and d :: int
  assumes d: "d > 0"
  shows "\<bar>real_of_int w + real_of_int (Math_round ((v - real_of_int w) * real_of_int d)) / real_of_int d - v\<bar>
      \<le> \<bar>real_of_int m / real_of_int d - v\<bar>"
proof -
  let ?n = "Math_round ((v - real_of_int w) * real_of_int d)"
  have dr: "real_of_int d > 0" using d by simp
  have "\<bar>real_of_int ?n - (v - real_of_int w) * real_of_int d\<bar>
      \<le> \<bar>real_of_int (m - w * d) - (v - real_of_int w) * real_of_int d\<bar>"
    by (rule Math_round_closest)
  also have "real_of_int (m - w * d) - (v - real_of_int w) * real_of_int d
      = (real_of_int m / real_of_int d - v) * real_of_int d"
    using dr by (simp add: field_simps)
  finally have "\<bar>real_of_int ?n - (v - real_of_int w) * real_of_int d\<bar> / real_of_int d
      \<le> \<bar>(real_of_int m / real_of_int d - v) * real_of_int d\<bar> / real_of_int d"
    using dr by (simp add: divide_right_mono)
  moreover have "\<bar>real_of_int ?n - (v - real_of_int w) * real_of_int d\<bar> / real_of_int d
      = \<bar>real_of_int w + real_of_int ?n / real_of_int d - v\<bar>"
  proof -
    have "real_of_int w + real_of_int ?n / real_of_int d - v
        = (real_of_int ?n - (v - real_of_int w) * real_of_int d) / real_of_int d"
      using dr by (simp add: field_simps)
    then show ?thesis using dr by (simp add: abs_divide)
  qed
  moreover have "\<bar>(real_of_int m / real_of_int d - v) * real_of_int d\<bar> / real_of_int d
      = \<bar>real_of_int m / real_of_int d - v\<bar>"
    using dr by (simp add: abs_mult)
  ultimately show ?thesis by simp
qed

text \<open>
  C6. For a positive \<open>denom\<close>, with \<open>whole = floor (value + 1e-9)\<close> and \<open>n\<close> the rounded
  number of \<open>1/denom\<close> in the rest: \<open>whole + n/denom\<close> is a multiple of \<open>1/denom\<close> nearest
  to the value; the result is the numeral of \<open>whole\<close> when \<open>n = 0\<close>, the numeral of
  \<open>whole + 1\<close> when \<open>n = denom\<close> (the roll-over), and otherwise the fraction \<open>n/denom\<close>
  in lowest terms (both divided by their greatest common divisor), alone when \<open>whole = 0\<close>
  and after \<open>whole\<close> and a space when not. \<open>toFraction(7.3125, 16)\<close> is \<open>7 5/16\<close> and
  \<open>toFraction(7.96875, 16)\<close> is \<open>8\<close>.
\<close>

theorem toFraction_rounds_reduces_renders:
  fixes v :: real and denom :: int
  assumes d: "denom > 0"
  defines "whole \<equiv> Math_floor (v + 1 / 10 ^ 9)"
  defines "n \<equiv> Math_round ((v - real_of_int whole) * real_of_int denom)"
  shows "(\<forall>m. \<bar>real_of_int whole + real_of_int n / real_of_int denom - v\<bar>
              \<le> \<bar>real_of_int m / real_of_int denom - v\<bar>)
    \<and> (n = 0 \<longrightarrow> toFraction v denom = show_int whole)
    \<and> (n = denom \<longrightarrow> toFraction v denom = show_int (whole + 1))
    \<and> (n \<noteq> 0 \<and> n \<noteq> denom \<longrightarrow>
          (\<exists>nn dd. nn * gcd n denom = n \<and> dd * gcd n denom = denom \<and> coprime nn dd
             \<and> toFraction v denom =
                 (if whole = 0 then show_int nn @ ''/'' @ show_int dd
                  else show_int whole @ '' '' @ show_int nn @ ''/'' @ show_int dd)))
    \<and> toFraction 7.3125 16 = ''7 5/16''
    \<and> toFraction 7.96875 16 = ''8''"
proof -
  have near: "\<bar>real_of_int whole + real_of_int n / real_of_int denom - v\<bar>
      \<le> \<bar>real_of_int m / real_of_int denom - v\<bar>" for m
    unfolding n_def using d by (rule nearest_multiple)
  have r0: "n = 0 \<longrightarrow> toFraction v denom = show_int whole"
    by (simp add: toFraction_def Let_def whole_def n_def)
  have r1: "n = denom \<longrightarrow> toFraction v denom = show_int (whole + 1)"
    using d by (auto simp: toFraction_def Let_def whole_def n_def)
  have r2: "\<exists>nn dd. nn * gcd n denom = n \<and> dd * gcd n denom = denom \<and> coprime nn dd
             \<and> toFraction v denom =
                 (if whole = 0 then show_int nn @ ''/'' @ show_int dd
                  else show_int whole @ '' '' @ show_int nn @ ''/'' @ show_int dd)"
    if n: "n \<noteq> 0 \<and> n \<noteq> denom"
  proof -
    let ?g = "gcd n denom"
    have g0: "?g \<noteq> 0" using d by simp
    have a: "(n div ?g) * ?g = n" and b: "(denom div ?g) * ?g = denom"
      by simp_all
    have c: "coprime (n div ?g) (denom div ?g)"
      using g0 by (simp add: div_gcd_coprime)
    have t: "toFraction v denom =
        (if whole = 0 then show_int (n div ?g) @ ''/'' @ show_int (denom div ?g)
         else show_int whole @ '' '' @ show_int (n div ?g) @ ''/'' @ show_int (denom div ?g))"
      using n unfolding whole_def n_def by (simp add: toFraction_def Let_def gcd_ts_eq)
    from a b c t show ?thesis by blast
  qed
  have e1: "toFraction 7.3125 16 = ''7 5/16''" by code_simp
  have e2: "toFraction 7.96875 16 = ''8''" by code_simp
  from near r0 r1 r2 e1 e2 show ?thesis by blast
qed

theorem toFraction_rounds_reduces_renders_witness:
  "(16::int) > 0
   \<and> toFraction 7.96875 16 = show_int 8
   \<and> (\<exists>nn dd. nn * gcd 5 16 = 5 \<and> dd * gcd 5 16 = (16::int) \<and> coprime nn dd
         \<and> toFraction 7.3125 16 = show_int 7 @ '' '' @ show_int nn @ ''/'' @ show_int dd)"
proof -
  have d: "(16::int) > 0" by simp
  have w1: "Math_floor (7.96875 + 1 / 10 ^ 9) = 7" and w2: "Math_floor (7.3125 + 1 / 10 ^ 9) = 7"
    by (simp_all add: Math_floor_def)
  have n1: "Math_round ((7.96875 - real_of_int 7) * real_of_int 16) = 16"
    and n2: "Math_round ((7.3125 - real_of_int 7) * real_of_int 16) = 5"
    by (simp_all add: Math_round_def)
  note A = toFraction_rounds_reduces_renders [OF d, of "7.96875", unfolded w1 n1]
  note B = toFraction_rounds_reduces_renders [OF d, of "7.3125", unfolded w2 n2]
  have a: "toFraction 7.96875 16 = show_int (7 + 1)"
    using A [THEN conjunct2, THEN conjunct2, THEN conjunct1] by simp
  have b: "\<exists>nn dd. nn * gcd 5 16 = 5 \<and> dd * gcd 5 16 = (16::int) \<and> coprime nn dd
         \<and> toFraction 7.3125 16 = show_int 7 @ '' '' @ show_int nn @ ''/'' @ show_int dd"
    using B [THEN conjunct2, THEN conjunct2, THEN conjunct2, THEN conjunct1] by simp
  from a have a': "toFraction 7.96875 16 = show_int 8" by simp
  show ?thesis
    by (intro conjI) (rule d, rule a', rule b)
qed

text \<open>
  \<open>toFeetInches\<close> splits the magnitude of its argument into \<open>ft = floor (|v| / 12)\<close> feet
  and \<open>inch = |v| - 12 * ft\<close> inches, a number with \<open>0 \<le> inch < 12\<close>; the result is a
  minus sign exactly when the argument is negative, then the feet and a quote mark when
  \<open>ft > 0\<close>, then \<open>toFraction inch 16\<close> and a double quote mark.
\<close>

lemma toFeetInches_split:
  fixes v :: real
  defines "ft \<equiv> Math_floor (\<bar>v\<bar> / 12)"
  defines "inch \<equiv> \<bar>v\<bar> - real_of_int ft * 12"
  shows "0 \<le> ft \<and> 0 \<le> inch \<and> inch < 12 \<and> \<bar>v\<bar> = real_of_int ft * 12 + inch
    \<and> toFeetInches v =
        (if v < 0 then ''-'' else [])
        @ (if ft > 0 then show_int ft @ [CHR 0x27] @ '' '' else [])
        @ toFraction inch 16 @ [CHR 0x22]"
proof -
  have f0: "0 \<le> ft" unfolding ft_def Math_floor_def by simp
  have lo: "real_of_int ft \<le> \<bar>v\<bar> / 12" and hi: "\<bar>v\<bar> / 12 < real_of_int ft + 1"
    unfolding ft_def Math_floor_def by linarith+
  have i0: "0 \<le> inch" and i12: "inch < 12"
    unfolding inch_def using lo hi by linarith+
  have s: "\<bar>v\<bar> = real_of_int ft * 12 + inch" unfolding inch_def by simp
  have t: "toFeetInches v =
        (if v < 0 then ''-'' else [])
        @ (if ft > 0 then show_int ft @ [CHR 0x27] @ '' '' else [])
        @ toFraction inch 16 @ [CHR 0x22]"
    unfolding inch_def ft_def by (simp add: toFeetInches_def Let_def)
  from f0 i0 i12 s t show ?thesis by blast
qed

lemma toFraction_inch_examples:
  "toFraction (1199 / 100) 16 = ''12'' \<and> toFraction (1197 / 100) 16 = ''12''"
  by code_simp

text \<open>
  C7 says that the inch part of the result is strictly less than 12. The number
  \<open>inch\<close> is, but the text is not: \<open>toFraction\<close> rolls fifteen and a half sixteenths or
  more over into the next whole inch, and \<open>toFeetInches\<close> does not carry that inch into
  the feet. For 23.99 inches it returns one foot and 12 inches, for 11.97 inches it returns
  12 inches and no feet.
\<close>

theorem toFeetInches_prints_twelve_inches:
  "toFeetInches 23.99 = ''1' 12\"'' \<and> toFeetInches 11.97 = ''12\"''"
proof -
  have f1: "Math_floor (\<bar>23.99\<bar> / 12) = 1" and f2: "Math_floor (\<bar>11.97\<bar> / 12) = 0"
    by (simp_all add: Math_floor_def)
  have s1: "show_int 1 = ''1''"
    by (simp add: show_int_def show_nat.simps digit_char_def)
  show ?thesis
    using toFeetInches_split [of "23.99"] toFeetInches_split [of "11.97"]
      toFraction_inch_examples
    unfolding f1 f2 s1 by simp
qed

section \<open>Properties of the dimensional parser\<close>

lemma is_digit_cases:
  "is_digit c \<Longrightarrow> \<not> is_space c \<and> \<not> is_lower c \<and> c \<noteq> CHR ''/'' \<and> c \<noteq> CHR ''+''
     \<and> c \<noteq> CHR ''-'' \<and> c \<noteq> CHR ''.'' \<and> c \<noteq> CHR 0x22 \<and> c \<noteq> CHR 0x27
     \<and> map_of (zip ''ABCDEFGHIJKLMNOPQRSTUVWXYZ'' ''abcdefghijklmnopqrstuvwxyz'') c = None"
  unfolding is_digit_def by (simp, elim disjE) (simp_all add: is_space_def is_lower_def)

lemma slash_facts:
  "\<not> is_space CHR ''/'' \<and> \<not> is_digit CHR ''/'' \<and> \<not> is_lower CHR ''/''
   \<and> map_of (zip ''ABCDEFGHIJKLMNOPQRSTUVWXYZ'' ''abcdefghijklmnopqrstuvwxyz'') CHR ''/'' = None"
  by (simp add: is_digit_def is_space_def is_lower_def)

lemma trim_id:
  assumes "s \<noteq> []" "\<not> is_space (hd s)" "\<not> is_space (last s)"
  shows "trim s = s"
proof -
  from assms(1,2) have a: "dropWhile is_space s = s"
    by (cases s) simp_all
  from assms(1,3) have "rev s \<noteq> []" "\<not> is_space (hd (rev s))"
    by (simp_all add: hd_rev)
  then have b: "dropWhile is_space (rev s) = rev s"
    by (cases "rev s") simp_all
  show ?thesis unfolding trim_def a b by simp
qed

lemma collapse_ws_id: "\<forall>c \<in> set s. \<not> is_space c \<Longrightarrow> collapse_ws s = s"
  by (induction s) simp_all

lemma toLowerCase_id:
  "\<forall>c \<in> set s. map_of (zip ''ABCDEFGHIJKLMNOPQRSTUVWXYZ'' ''abcdefghijklmnopqrstuvwxyz'') c = None
   \<Longrightarrow> toLowerCase s = s"
  unfolding toLowerCase_def by (induction s) simp_all

lemma digits_value_zeros: "\<forall>c \<in> set zs. c = CHR ''0'' \<Longrightarrow> foldl (\<lambda>a c. 10 * a + digit_val c) 0 zs = 0"
  by (induction zs) (simp_all add: digit_val_def)

lemma Number_zeros:
  assumes "zs \<noteq> []" "\<forall>c \<in> set zs. c = CHR ''0''"
  shows "Number zs = 0"
proof -
  from assms obtain r where zs: "zs = CHR ''0'' # r" by (cases zs) auto
  have d: "\<forall>c \<in> set zs. is_digit c" using assms(2) by (simp add: is_digit_def)
  have s: "strip_sign zs = zs" by (simp add: zs strip_sign_def)
  have t: "takeWhile is_digit zs = zs" and dr: "dropWhile is_digit zs = []"
    using d by simp_all
  have "digits_value zs = 0"
    unfolding digits_value_def using assms(2) by (rule digits_value_zeros)
  moreover have "take 1 zs \<noteq> ''-''" by (simp add: zs)
  ultimately show ?thesis
    unfolding Number_def Let_def s t dr by (simp add: digits_value_def)
qed

lemma takeWhile_digits_then:
  assumes "\<forall>c \<in> set ns. is_digit c" "\<not> is_digit x"
  shows "takeWhile is_digit (ns @ x # r) = ns" "dropWhile is_digit (ns @ x # r) = x # r"
  using assms by (simp_all add: takeWhile_append2 dropWhile_append2)

lemma zero_denominator_fraction:
  assumes ns: "ns \<noteq> []" "\<forall>c \<in> set ns. is_digit c"
    and zs: "zs \<noteq> []" "\<forall>c \<in> set zs. c = CHR ''0''"
  shows "parseInches (ns @ ''/'' @ zs) = Throws (Error ''Invalid fraction'')"
proof -
  define s where "s = ns @ ''/'' @ zs"
  have zd: "\<forall>c \<in> set zs. is_digit c" using zs(2) by (simp add: is_digit_def)
  have chars: "\<forall>c \<in> set s. is_digit c \<or> c = CHR ''/''"
    using ns(2) zd by (auto simp: s_def)
  have nosp: "\<forall>c \<in> set s. \<not> is_space c"
    using chars is_digit_cases slash_facts by blast
  have noup: "\<forall>c \<in> set s.
      map_of (zip ''ABCDEFGHIJKLMNOPQRSTUVWXYZ'' ''abcdefghijklmnopqrstuvwxyz'') c = None"
    using chars is_digit_cases slash_facts by blast
  have noq: "\<forall>c \<in> set s. c \<noteq> CHR 0x22"
    using chars is_digit_cases by auto
  have nohy: "\<forall>c \<in> set s. c \<noteq> CHR ''-''"
    using chars is_digit_cases by auto
  have ne: "s \<noteq> []" using ns(1) by (simp add: s_def)
  have tr: "trim s = s"
  proof (rule trim_id [OF ne])
    show "\<not> is_space (hd s)" using nosp ne hd_in_set by blast
    show "\<not> is_space (last s)" using nosp ne last_in_set by blast
  qed
  have lo: "toLowerCase s = s" using noup by (rule toLowerCase_id)
  have fq: "remove_quotes s = s" using noq by (simp add: remove_quotes_def filter_id_conv)
  have cw: "collapse_ws s = s" using nosp by (rule collapse_ws_id)
  have hy: "replace_hyphens s = s"
    using nohy by (simp add: replace_hyphens_def map_idI)
  obtain n0 nr where n0: "ns = n0 # nr" using ns(1) by (cases ns) auto
  have sg: "strip_sign s = s"
    using ns(2) is_digit_cases [of n0] by (simp add: n0 strip_sign_def s_def)
  have tw: "takeWhile is_digit s = ns" and dw: "dropWhile is_digit s = CHR ''/'' # zs"
    using takeWhile_digits_then [OF ns(2), of "CHR ''/''" zs] slash_facts by (simp_all add: s_def)
  have tn: "\<not> test_number s"
    unfolding test_number_def Let_def sg tw dw by simp
  have mf: "match_feet s = None"
    unfolding match_feet_def Let_def sg tw dw using slash_facts by simp
  have mm: "match_mixed s = None"
    unfolding match_mixed_def Let_def sg tw dw using slash_facts by simp
  have zt: "takeWhile is_digit zs = zs"
    using zd by simp
  have zsp: "dropWhile is_space zs = zs"
    using zs(1) zd is_digit_cases by (cases zs) auto
  have mfr: "match_frac s = Some (ns, zs)"
    unfolding match_frac_def Let_def tw dw using slash_facts ns(1) zs(1) zd
    by (simp add: zsp zt)
  have nz: "Number zs = 0" using zs by (rule Number_zeros)
  have part: "parseInchesPart s = Throws (Error ''Invalid fraction'')"
    by (subst parseInchesPart.simps) (simp add: Let_def tr ne hy tn mm mfr nz)
  have "parseInches s = Throws (Error ''Invalid fraction'')"
    unfolding parseInches_def Let_def tr lo fq cw
    using ne tn mf part by simp
  then show ?thesis by (simp add: s_def)
qed

subsection \<open>Trimming\<close>

lemma trim_pad:
  assumes a: "\<forall>c \<in> set a. is_space c" and b: "\<forall>c \<in> set b. is_space c"
  shows "trim (a @ y @ b) = trim y"
proof -
  have d: "dropWhile is_space (a @ y @ b) = dropWhile is_space (y @ b)"
    by (rule dropWhile_append2) (use a in auto)
  show ?thesis
  proof (cases "\<forall>c \<in> set y. is_space c")
    case True
    then have "dropWhile is_space (y @ b) = []" and "dropWhile is_space y = []"
      using b by auto
    then show ?thesis unfolding trim_def d by (simp only: rev.simps dropWhile.simps)
  next
    case False
    then obtain x where "x \<in> set y" "\<not> is_space x" by blast
    then have "dropWhile is_space (y @ b) = dropWhile is_space y @ b"
      by (rule dropWhile_append1)
    moreover have "dropWhile is_space (rev b @ rev (dropWhile is_space y))
        = dropWhile is_space (rev (dropWhile is_space y))"
      by (rule dropWhile_append2) (use b in auto)
    ultimately show ?thesis unfolding trim_def d by simp
  qed
qed

lemma trim_decomp:
  "\<exists>a b. x = a @ trim x @ b \<and> (\<forall>c \<in> set a. is_space c) \<and> (\<forall>c \<in> set b. is_space c)"
proof -
  let ?y = "dropWhile is_space x"
  let ?a = "takeWhile is_space x"
  let ?b = "rev (takeWhile is_space (rev ?y))"
  have "rev ?y = takeWhile is_space (rev ?y) @ dropWhile is_space (rev ?y)"
    by simp
  then have "rev (rev ?y) = rev (takeWhile is_space (rev ?y) @ dropWhile is_space (rev ?y))"
    by simp
  then have y: "?y = trim x @ ?b"
    unfolding trim_def by (simp only: rev_rev_ident rev_append)
  have "x = ?a @ ?y" by simp
  with y have "x = ?a @ trim x @ ?b" by simp
  moreover have "\<forall>c \<in> set ?a. is_space c" by (auto dest: set_takeWhileD)
  moreover have "\<forall>c \<in> set ?b. is_space c" by (auto dest: set_takeWhileD)
  ultimately show ?thesis by blast
qed

lemma trim_Nil: "trim [] = []"
  by (simp add: trim_def)

lemma trim_idem: "trim (trim x) = trim x"
proof -
  from trim_decomp [of x] obtain a b where x: "x = a @ trim x @ b"
    and a: "\<forall>c \<in> set a. is_space c" and b: "\<forall>c \<in> set b. is_space c"
    by blast
  from trim_pad [OF a b, of "trim x"] x show ?thesis by simp
qed

lemma set_trim: "set (trim x) \<subseteq> set x"
proof -
  from trim_decomp [of x] obtain a b where x: "x = a @ trim x @ b" by blast
  have "set (trim x) \<subseteq> set (a @ trim x @ b)" by auto
  with x show ?thesis by simp
qed

lemma trim_Nil_conv: "trim x = [] \<longleftrightarrow> (\<forall>c \<in> set x. is_space c)"
proof
  assume "trim x = []"
  with trim_decomp [of x] show "\<forall>c \<in> set x. is_space c"
    by (metis append_Nil set_append UnE)
next
  assume "\<forall>c \<in> set x. is_space c"
  then have d: "dropWhile is_space x = []" by simp
  show "trim x = []" unfolding trim_def d by simp
qed

subsection \<open>Replacements and trimming\<close>

lemma space_not_hyphen_lower: "is_space c \<Longrightarrow> c \<noteq> CHR ''-'' \<and> \<not> is_lower c"
  unfolding is_space_def by (simp, elim disjE) (simp_all add: is_lower_def)

lemma replace_hyphens_spaces: "\<forall>c \<in> set a. is_space c \<Longrightarrow> replace_hyphens a = a"
  unfolding replace_hyphens_def by (induction a) (simp_all add: space_not_hyphen_lower)

lemma remove_letters_spaces: "\<forall>c \<in> set a. is_space c \<Longrightarrow> remove_letters a = a"
  unfolding remove_letters_def by (induction a) (simp_all add: space_not_hyphen_lower)

lemma trim_replace_hyphens: "trim (replace_hyphens x) = trim (replace_hyphens (trim x))"
proof -
  from trim_decomp [of x] obtain a b where x: "x = a @ trim x @ b"
    and a: "\<forall>c \<in> set a. is_space c" and b: "\<forall>c \<in> set b. is_space c"
    by blast
  have "replace_hyphens x = replace_hyphens a @ replace_hyphens (trim x) @ replace_hyphens b"
    by (subst x) (simp add: replace_hyphens_def)
  then have "replace_hyphens x = a @ replace_hyphens (trim x) @ b"
    using a b by (simp add: replace_hyphens_spaces)
  then show ?thesis using trim_pad [OF a b] by simp
qed

lemma trim_remove_letters: "trim (remove_letters x) = trim (remove_letters (trim x))"
proof -
  from trim_decomp [of x] obtain a b where x: "x = a @ trim x @ b"
    and a: "\<forall>c \<in> set a. is_space c" and b: "\<forall>c \<in> set b. is_space c"
    by blast
  have "remove_letters x = remove_letters a @ remove_letters (trim x) @ remove_letters b"
    by (subst x) (simp add: remove_letters_def)
  then have "remove_letters x = a @ remove_letters (trim x) @ b"
    using a b by (simp add: remove_letters_spaces)
  then show ?thesis using trim_pad [OF a b] by simp
qed

lemma replace_hyphens_id: "\<forall>c \<in> set x. c \<noteq> CHR ''-'' \<Longrightarrow> replace_hyphens x = x"
  unfolding replace_hyphens_def by (induction x) simp_all

lemma no_hyphen_replace_hyphens: "c \<in> set (replace_hyphens x) \<Longrightarrow> c \<noteq> CHR ''-''"
  unfolding replace_hyphens_def by (auto split: if_splits)

lemma remove_letters_id: "\<forall>c \<in> set x. \<not> is_lower c \<Longrightarrow> remove_letters x = x"
  unfolding remove_letters_def by (induction x) simp_all

lemma parseInchesPart_trim: "parseInchesPart (trim x) = parseInchesPart x"
  by (simp add: parseInchesPart_unfold [of x] parseInchesPart_unfold [of "trim x"] trim_idem)

subsection \<open>What the patterns accept\<close>

lemma punct_facts:
  "\<not> is_space CHR ''+'' \<and> \<not> is_lower CHR ''+'' \<and> \<not> is_space CHR ''-'' \<and> \<not> is_lower CHR ''-''
   \<and> \<not> is_space CHR ''.'' \<and> \<not> is_lower CHR ''.''"
  by (simp add: is_space_def is_lower_def)

lemma space_not_lower: "is_space c \<Longrightarrow> \<not> is_lower c"
  by (simp add: space_not_hyphen_lower)

lemma digit_clean: "is_digit c \<Longrightarrow> \<not> is_space c \<and> \<not> is_lower c"
  by (simp add: is_digit_cases)

lemma slash_not_lower: "\<not> is_lower CHR ''/''"
  by (simp add: slash_facts)

lemma hd_takeWhile_ne: "takeWhile P xs \<noteq> [] \<Longrightarrow> P (hd xs)"
  by (cases xs) (auto split: if_splits)

lemma last_append3: "q \<noteq> [] \<Longrightarrow> last (a @ b @ q) = last q"
  by simp

lemma strip_sign_decomp:
  "\<exists>pre. p = pre @ strip_sign p \<and> (pre = [] \<or> pre = ''+'' \<or> pre = ''-'')"
  by (cases p) (auto simp: strip_sign_def)

lemma match_frac_decomp:
  assumes "match_frac p = Some (n, d)"
  shows "\<exists>ws1 ws2. p = n @ ws1 @ CHR ''/'' # ws2 @ d \<and> n \<noteq> [] \<and> d \<noteq> []
     \<and> (\<forall>c \<in> set n. is_digit c) \<and> (\<forall>c \<in> set d. is_digit c)
     \<and> (\<forall>c \<in> set ws1. is_space c) \<and> (\<forall>c \<in> set ws2. is_space c)"
proof -
  let ?r1 = "dropWhile is_digit p"
  from assms have n: "n = takeWhile is_digit p" and nn: "n \<noteq> []"
    by (auto simp: match_frac_def Let_def split: if_splits list.splits)
  from assms obtain r2 where r2: "dropWhile is_space ?r1 = CHR ''/'' # r2"
    and d: "d = takeWhile is_digit (dropWhile is_space r2)" and dn: "d \<noteq> []"
    and rest: "dropWhile is_digit (dropWhile is_space r2) = []"
    by (auto simp: match_frac_def Let_def split: if_splits list.splits)
  let ?r3 = "dropWhile is_space r2"
  have p1: "p = n @ ?r1" unfolding n by simp
  have p2: "?r1 = takeWhile is_space ?r1 @ CHR ''/'' # r2"
    using r2 by (metis takeWhile_dropWhile_id)
  have p3: "r2 = takeWhile is_space r2 @ ?r3" by simp
  have p4: "?r3 = d" using rest unfolding d by (metis append_Nil2 takeWhile_dropWhile_id)
  have "p = n @ takeWhile is_space ?r1 @ CHR ''/'' # takeWhile is_space r2 @ d"
    using p1 p2 p3 p4 by metis
  moreover have "\<forall>c \<in> set n. is_digit c" unfolding n by (auto dest: set_takeWhileD)
  moreover have "\<forall>c \<in> set d. is_digit c" unfolding d by (auto dest: set_takeWhileD)
  moreover have "\<forall>c \<in> set (takeWhile is_space ?r1). is_space c" by (auto dest: set_takeWhileD)
  moreover have "\<forall>c \<in> set (takeWhile is_space r2). is_space c" by (auto dest: set_takeWhileD)
  ultimately show ?thesis using nn dn by blast
qed

lemma match_frac_shape:
  assumes "match_frac p = Some (n, d)"
  shows "p \<noteq> [] \<and> is_digit (hd p) \<and> is_digit (last p) \<and> (\<forall>c \<in> set p. \<not> is_lower c)"
proof -
  from match_frac_decomp [OF assms] obtain ws1 ws2 where
    p: "p = n @ ws1 @ CHR ''/'' # ws2 @ d" and n: "n \<noteq> []" and d: "d \<noteq> []"
    and nd: "\<forall>c \<in> set n. is_digit c" and dd: "\<forall>c \<in> set d. is_digit c"
    and s1: "\<forall>c \<in> set ws1. is_space c" and s2: "\<forall>c \<in> set ws2. is_space c"
    by blast
  have "hd p = hd n" using n by (subst p) simp
  then have h: "is_digit (hd p)" using n nd by simp
  have "last p = last d" using d by (subst p) simp
  then have l: "is_digit (last p)" using d dd by simp
  have "\<not> is_lower c" if "c \<in> set p" for c
  proof -
    from that have "c \<in> set n \<or> c \<in> set ws1 \<or> c = CHR ''/'' \<or> c \<in> set ws2 \<or> c \<in> set d"
      by (subst (asm) p) auto
    then show ?thesis
      using nd dd s1 s2 digit_clean space_not_lower slash_not_lower by blast
  qed
  moreover have "p \<noteq> []" using n by (subst p) simp
  ultimately show ?thesis using h l by blast
qed

lemma test_number_shape:
  assumes "test_number p"
  shows "p \<noteq> [] \<and> \<not> is_space (hd p) \<and> \<not> is_space (last p) \<and> (\<forall>c \<in> set p. \<not> is_lower c)"
proof -
  let ?r = "strip_sign p"
  let ?ip = "takeWhile is_digit ?r"
  let ?rest = "dropWhile is_digit ?r"
  from assms have ip: "?ip \<noteq> []"
    and rest: "?rest = [] \<or> (\<exists>f. ?rest = CHR ''.'' # f \<and> f \<noteq> [] \<and> (\<forall>c \<in> set f. is_digit c))"
    by (auto simp: test_number_def Let_def list_all_iff split: list.splits)
  from strip_sign_decomp [of p] obtain pre where p: "p = pre @ ?r"
    and pre: "pre = [] \<or> pre = ''+'' \<or> pre = ''-''" by blast
  have r: "?r = ?ip @ ?rest" by simp
  have ipd: "\<forall>c \<in> set ?ip. is_digit c" by (auto dest: set_takeWhileD)
  have "c \<in> set pre \<or> c \<in> set ?ip \<or> c \<in> set ?rest" if "c \<in> set p" for c
    using that p r by (metis UnE set_append)
  moreover have "\<not> is_space c \<and> \<not> is_lower c" if "c \<in> set pre" for c
    using that pre punct_facts by auto
  moreover have "\<not> is_space c \<and> \<not> is_lower c" if "c \<in> set ?ip" for c
    using that ipd digit_clean by blast
  moreover have "\<not> is_space c \<and> \<not> is_lower c" if "c \<in> set ?rest" for c
  proof -
    have "?rest \<noteq> []" using that by (metis empty_iff empty_set)
    with rest obtain f where "?rest = CHR ''.'' # f" and "\<forall>c \<in> set f. is_digit c"
      by blast
    with that have "c = CHR ''.'' \<or> is_digit c" by (metis set_ConsD)
    then show ?thesis using punct_facts digit_clean by blast
  qed
  ultimately have clean: "\<forall>c \<in> set p. \<not> is_space c \<and> \<not> is_lower c" by blast
  have ne: "p \<noteq> []" using p r ip by auto
  then have "hd p \<in> set p" "last p \<in> set p" by simp_all
  with clean ne show ?thesis by blast
qed

lemma match_mixed_shape:
  assumes "match_mixed p = Some (w, n, d)"
  shows "p \<noteq> [] \<and> \<not> is_space (hd p) \<and> \<not> is_space (last p) \<and> (\<forall>c \<in> set p. \<not> is_lower c)"
proof -
  let ?r = "strip_sign p"
  let ?ds = "takeWhile is_digit ?r"
  let ?r1 = "dropWhile is_digit ?r"
  let ?q = "dropWhile is_space ?r1"
  from assms have ds: "?ds \<noteq> []" and q: "match_frac ?q = Some (n, d)"
    by (auto simp: match_mixed_def Let_def split: if_splits option.splits)
  from strip_sign_decomp [of p] obtain pre where p: "p = pre @ ?r"
    and pre: "pre = [] \<or> pre = ''+'' \<or> pre = ''-''" by blast
  have r: "?r = ?ds @ takeWhile is_space ?r1 @ ?q"
    by (metis takeWhile_dropWhile_id)
  from match_frac_shape [OF q] have qne: "?q \<noteq> []" and ql: "is_digit (last ?q)"
    and qlow: "\<forall>c \<in> set ?q. \<not> is_lower c" by blast+
  have dsd: "\<forall>c \<in> set ?ds. is_digit c" by (auto dest: set_takeWhileD)
  have wsd: "\<forall>c \<in> set (takeWhile is_space ?r1). is_space c" by (auto dest: set_takeWhileD)
  have rne: "?r \<noteq> []" using ds by auto
  have hr: "is_digit (hd ?r)" using ds by (rule hd_takeWhile_ne)
  have "last ?r = last (?ds @ takeWhile is_space ?r1 @ ?q)" by simp
  also have "\<dots> = last ?q" using qne by (rule last_append3)
  finally have lr: "is_digit (last ?r)" using ql by simp
  have ne: "p \<noteq> []" using p rne by auto
  have hp: "\<not> is_space (hd p)"
  proof (cases "pre = []")
    case True
    with p have "hd p = hd ?r" by simp
    with hr digit_clean show ?thesis by simp
  next
    case False
    with pre have "hd pre = CHR ''+'' \<or> hd pre = CHR ''-''" by auto
    moreover have "hd p = hd pre" using False by (subst p) simp
    ultimately show ?thesis using punct_facts by auto
  qed
  have "last p = last ?r" using rne by (subst p) simp
  then have lp: "\<not> is_space (last p)" using lr digit_clean by simp
  have "\<not> is_lower c" if "c \<in> set p" for c
  proof -
    from that p have "c \<in> set pre \<or> c \<in> set ?r" by (metis UnE set_append)
    then have "c \<in> set pre \<or> c \<in> set ?ds \<or> c \<in> set (takeWhile is_space ?r1) \<or> c \<in> set ?q"
      using r by (metis UnE set_append)
    moreover have "\<not> is_lower c" if "c \<in> set pre"
      using that pre punct_facts by auto
    ultimately show ?thesis
      using dsd wsd qlow digit_clean space_not_lower by blast
  qed
  with ne hp lp show ?thesis by blast
qed

lemma accepted_is_trimmed:
  assumes "test_number p \<or> match_mixed p \<noteq> None \<or> match_frac p \<noteq> None"
  shows "trim p = p \<and> remove_letters p = p"
proof -
  have "p \<noteq> [] \<and> \<not> is_space (hd p) \<and> \<not> is_space (last p) \<and> (\<forall>c \<in> set p. \<not> is_lower c)"
    using assms test_number_shape [of p] match_mixed_shape [of p] match_frac_shape [of p]
      digit_clean
    by (cases "match_mixed p"; cases "match_frac p") auto
  then show ?thesis by (simp add: trim_id remove_letters_id)
qed

subsection \<open>Hyphens are white space to \<open>parseInchesPart\<close>\<close>

lemma inches_of_rejected:
  assumes "\<not> (test_number p \<or> match_mixed p \<noteq> None \<or> match_frac p \<noteq> None)"
    and "trim (remove_letters p) \<noteq> p"
  shows "inches_of p = parseInchesPart (trim (remove_letters p))"
proof -
  from assms(1) have "\<not> test_number p" "match_mixed p = None" "match_frac p = None"
    by blast+
  with assms(2) show ?thesis by (simp add: inches_of_def)
qed

lemma no_hyphen_trim:
  "\<forall>c \<in> set y. c \<noteq> CHR ''-'' \<Longrightarrow> \<forall>c \<in> set (trim y). c \<noteq> CHR ''-''"
  using set_trim [of y] by blast

lemma parseInchesPart_cleaned:
  assumes nohy: "\<forall>c \<in> set y. c \<noteq> CHR ''-''"
  shows "parseInchesPart (trim (remove_letters y)) = parseInchesPart y"
proof -
  let ?q = "trim y"
  let ?c = "trim (remove_letters y)"
  have c: "?c = trim (remove_letters ?q)" by (rule trim_remove_letters)
  show ?thesis
  proof (cases "?c = ?q")
    case True
    then show ?thesis by (simp add: parseInchesPart_trim)
  next
    case False
    have qne: "?q \<noteq> []"
    proof
      assume q0: "?q = []"
      then have "remove_letters ?q = []" by (simp add: remove_letters_def)
      with c have "?c = trim []" by simp
      then have "?c = []" by (simp add: trim_Nil)
      with q0 False show False by simp
    qed
    have hq: "replace_hyphens ?q = ?q"
      using no_hyphen_trim [OF nohy] by (rule replace_hyphens_id)
    have rej: "\<not> (test_number ?q \<or> match_mixed ?q \<noteq> None \<or> match_frac ?q \<noteq> None)"
    proof
      assume "test_number ?q \<or> match_mixed ?q \<noteq> None \<or> match_frac ?q \<noteq> None"
      from accepted_is_trimmed [OF this] have "remove_letters ?q = ?q" by simp
      then have "?c = ?q" unfolding c by (simp add: trim_idem)
      with False show False by simp
    qed
    have "parseInchesPart y = inches_of ?q"
      using qne hq by (simp add: parseInchesPart_unfold [of y])
    also have "\<dots> = parseInchesPart (trim (remove_letters ?q))"
      using rej False unfolding c by (rule inches_of_rejected)
    finally show ?thesis unfolding c by simp
  qed
qed

lemma parseInchesPart_replace_hyphens:
  "parseInchesPart (replace_hyphens part) = parseInchesPart part"
proof -
  let ?p = "replace_hyphens (trim part)"
  have nohy: "\<forall>c \<in> set ?p. c \<noteq> CHR ''-''"
    using no_hyphen_replace_hyphens by blast
  have "parseInchesPart (replace_hyphens part) = parseInchesPart (trim (replace_hyphens part))"
    by (simp add: parseInchesPart_trim)
  also have "\<dots> = parseInchesPart (trim ?p)"
    using trim_replace_hyphens [of part] by simp
  also have "\<dots> = parseInchesPart ?p"
    by (rule parseInchesPart_trim)
  finally have rhs: "parseInchesPart (replace_hyphens part) = parseInchesPart ?p" .
  have "parseInchesPart part = parseInchesPart ?p"
  proof (cases "trim part = []")
    case True
    then have p0: "?p = []" by (simp add: replace_hyphens_def)
    have "parseInchesPart [] = Returns 0"
      by (simp add: parseInchesPart_unfold [of "[]"] trim_Nil)
    with p0 have "parseInchesPart ?p = Returns 0" by simp
    moreover have "parseInchesPart part = Returns 0"
      using True by (simp add: parseInchesPart_unfold [of part])
    ultimately show ?thesis by simp
  next
    case False
    then have l: "parseInchesPart part = inches_of ?p"
      by (simp add: parseInchesPart_unfold [of part])
    have hp: "replace_hyphens ?p = ?p" using nohy by (rule replace_hyphens_id)
    have pne: "?p \<noteq> []" using False by (simp add: replace_hyphens_def)
    show ?thesis
    proof (cases "trim ?p = ?p")
      case True
      then have "parseInchesPart ?p = inches_of ?p"
        using pne hp by (simp add: parseInchesPart_unfold [of ?p])
      with l show ?thesis by simp
    next
      case untrimmed: False
      have rej: "\<not> (test_number ?p \<or> match_mixed ?p \<noteq> None \<or> match_frac ?p \<noteq> None)"
        using accepted_is_trimmed [of ?p] untrimmed by blast
      have neq: "trim (remove_letters ?p) \<noteq> ?p"
      proof
        assume e: "trim (remove_letters ?p) = ?p"
        have "trim ?p = trim (trim (remove_letters ?p))" using e by simp
        also have "\<dots> = trim (remove_letters ?p)" by (rule trim_idem)
        also have "\<dots> = ?p" by (rule e)
        finally show False using untrimmed by simp
      qed
      from l have "parseInchesPart part = parseInchesPart (trim (remove_letters ?p))"
        using inches_of_rejected [OF rej neq] by simp
      also have "\<dots> = parseInchesPart ?p"
        using nohy by (rule parseInchesPart_cleaned)
      finally show ?thesis .
    qed
  qed
  with rhs show ?thesis by simp
qed

subsection \<open>Fractions with a denominator of zero\<close>

text \<open>
  What the patterns do on a text made of runs of digits, runs of white space, the slash and
  the feet mark.
\<close>

lemma run_then:
  assumes "\<forall>c \<in> set xs. P c" "r = [] \<or> \<not> P (hd r)"
  shows "takeWhile P (xs @ r) = xs" "dropWhile P (xs @ r) = r"
proof -
  from assms(2) have t: "takeWhile P r = []" and d: "dropWhile P r = r"
    by (cases r; simp)+
  show "takeWhile P (xs @ r) = xs" using assms(1) t by (simp add: takeWhile_append2)
  show "dropWhile P (xs @ r) = r" using assms(1) d by (simp add: dropWhile_append2)
qed

lemma space_not_digit: "is_space c \<Longrightarrow> \<not> is_digit c"
  using digit_clean by blast

lemma quote_facts:
  "\<not> is_space (CHR 0x27) \<and> \<not> is_digit (CHR 0x27) \<and> \<not> is_line_terminator (CHR 0x27)
   \<and> CHR 0x27 \<noteq> CHR ''/'' \<and> CHR 0x27 \<noteq> CHR 0x22 \<and> CHR 0x27 \<noteq> CHR ''-''
   \<and> map_of (zip ''ABCDEFGHIJKLMNOPQRSTUVWXYZ'' ''abcdefghijklmnopqrstuvwxyz'') (CHR 0x27) = None"
  by (simp add: is_digit_def is_space_def is_line_terminator_def)

lemma space_facts:
  "is_space c \<Longrightarrow> c \<noteq> CHR ''/'' \<and> c \<noteq> CHR 0x22 \<and> c \<noteq> CHR ''-'' \<and> c \<noteq> CHR 0x27
     \<and> c \<noteq> CHR ''+'' \<and> c \<noteq> CHR ''.''
     \<and> map_of (zip ''ABCDEFGHIJKLMNOPQRSTUVWXYZ'' ''abcdefghijklmnopqrstuvwxyz'') c = None"
  unfolding is_space_def by (simp, elim disjE) simp_all

lemma match_frac_complete:
  assumes ns: "ns \<noteq> []" "\<forall>c \<in> set ns. is_digit c"
    and s1: "\<forall>c \<in> set s1. is_space c" and s2: "\<forall>c \<in> set s2. is_space c"
    and ds: "ds \<noteq> []" "\<forall>c \<in> set ds. is_digit c"
  shows "match_frac (ns @ s1 @ CHR ''/'' # s2 @ ds) = Some (ns, ds)"
proof -
  have h1: "\<not> is_digit (hd (s1 @ CHR ''/'' # s2 @ ds))"
    using s1 slash_facts space_not_digit by (cases s1) simp_all
  have tw: "takeWhile is_digit (ns @ s1 @ CHR ''/'' # s2 @ ds) = ns"
    and dw: "dropWhile is_digit (ns @ s1 @ CHR ''/'' # s2 @ ds) = s1 @ CHR ''/'' # s2 @ ds"
    using run_then [OF ns(2), of "s1 @ CHR ''/'' # s2 @ ds"] h1 by blast+
  have d1: "dropWhile is_space (s1 @ CHR ''/'' # s2 @ ds) = CHR ''/'' # s2 @ ds"
    using run_then(2) [OF s1, of "CHR ''/'' # s2 @ ds"] slash_facts by simp
  have "\<not> is_space (hd ds)" using ds digit_clean by (cases ds) simp_all
  then have d2: "dropWhile is_space (s2 @ ds) = ds"
    using run_then(2) [OF s2, of ds] by blast
  have t3: "takeWhile is_digit ds = ds" and d3: "dropWhile is_digit ds = []"
    using ds(2) by simp_all
  show ?thesis
    unfolding match_frac_def Let_def tw dw d1 list.case d2 t3 d3 using ns(1) ds(1) by simp
qed

lemma test_number_chars:
  assumes "test_number p"
  shows "\<forall>c \<in> set p. is_digit c \<or> c = CHR ''+'' \<or> c = CHR ''-'' \<or> c = CHR ''.''"
proof -
  let ?r = "strip_sign p"
  let ?ip = "takeWhile is_digit ?r"
  let ?rest = "dropWhile is_digit ?r"
  from assms have
    rest: "?rest = [] \<or> (\<exists>f. ?rest = CHR ''.'' # f \<and> (\<forall>c \<in> set f. is_digit c))"
    by (auto simp: test_number_def Let_def list_all_iff split: list.splits)
  from strip_sign_decomp [of p] obtain pre where p: "p = pre @ ?r"
    and pre: "pre = [] \<or> pre = ''+'' \<or> pre = ''-''" by blast
  have r: "?r = ?ip @ ?rest" by simp
  have ipd: "\<forall>c \<in> set ?ip. is_digit c" by (auto dest: set_takeWhileD)
  have "c \<in> set pre \<or> c \<in> set ?ip \<or> c \<in> set ?rest" if "c \<in> set p" for c
    using that p r by (metis UnE set_append)
  moreover have "c = CHR ''+'' \<or> c = CHR ''-''" if "c \<in> set pre" for c
    using that pre by auto
  moreover have "is_digit c \<or> c = CHR ''.''" if "c \<in> set ?rest" for c
  proof -
    have "?rest \<noteq> []" using that by (metis empty_iff empty_set)
    with rest obtain f where "?rest = CHR ''.'' # f" and "\<forall>c \<in> set f. is_digit c"
      by blast
    with that show ?thesis by (metis set_ConsD)
  qed
  ultimately show ?thesis using ipd by blast
qed

lemma slash_not_number: "CHR ''/'' \<in> set p \<Longrightarrow> \<not> test_number p"
  using test_number_chars [of p] slash_facts by auto

lemma digit_sign:
  assumes "p \<noteq> []" "is_digit (hd p)"
  shows "strip_sign p = p"
  using assms is_digit_cases [of "hd p"] by (cases p) (simp_all add: strip_sign_def)

text \<open>
  The inches part: a fraction, bare or after a whole number, with a denominator of zeros.
\<close>

lemma zero_denominator_part:
  assumes w: "\<forall>c \<in> set w. is_digit c" and g: "\<forall>c \<in> set g. is_space c" "w \<noteq> [] \<longrightarrow> g \<noteq> []"
    and ns: "ns \<noteq> []" "\<forall>c \<in> set ns. is_digit c"
    and s1: "\<forall>c \<in> set s1. is_space c" and s2: "\<forall>c \<in> set s2. is_space c"
    and zs: "zs \<noteq> []" "\<forall>c \<in> set zs. c = CHR ''0''"
  shows "parseInchesPart ((if w = [] then [] else w @ g) @ ns @ s1 @ CHR ''/'' # s2 @ zs)
     = Throws (Error ''Invalid fraction'')"
proof -
  define q where "q = ns @ s1 @ CHR ''/'' # s2 @ zs"
  define p where "p = (if w = [] then [] else w @ g) @ q"
  have zd: "\<forall>c \<in> set zs. is_digit c" using zs(2) by (simp add: is_digit_def)
  have mq: "match_frac q = Some (ns, zs)"
    unfolding q_def using ns s1 s2 zs(1) zd by (rule match_frac_complete)
  have nz: "Number zs = 0" using zs by (rule Number_zeros)
  have qne: "q \<noteq> []" using ns(1) by (simp add: q_def)
  have hq: "hd q = hd ns" using ns(1) by (simp add: q_def)
  have hqd: "is_digit (hd q)" using ns hq by simp
  have lq: "last q = last zs" using zs(1) by (simp add: q_def)
  have pne: "p \<noteq> []" using qne by (simp add: p_def)
  have hp: "is_digit (hd p)"
    using hqd qne w by (cases w) (simp_all add: p_def)
  have lp: "last p = last zs" using lq qne by (simp add: p_def)
  have lpd: "is_digit (last p)" using lp zs(1) zd by simp
  have tr: "trim p = p"
    using pne hp lpd digit_clean by (intro trim_id) blast+
  have chars: "c \<in> set p \<Longrightarrow> is_digit c \<or> is_space c \<or> c = CHR ''/''" for c
    using w g(1) ns(2) s1 s2 zd by (auto simp: p_def q_def split: if_splits)
  have nohy: "\<forall>c \<in> set p. c \<noteq> CHR ''-''"
    using chars is_digit_cases space_facts by fastforce
  have hy: "replace_hyphens p = p" using nohy by (rule replace_hyphens_id)
  have "CHR ''/'' \<in> set p" by (simp add: p_def q_def)
  then have tn: "\<not> test_number p" by (rule slash_not_number)
  have sg: "strip_sign p = p" using pne hp by (rule digit_sign)
  have "inches_of p = Throws (Error ''Invalid fraction'')"
  proof (cases "w = []")
    case True
    then have pq: "p = q" by (simp add: p_def)
    have h1: "\<not> is_digit (hd (s1 @ CHR ''/'' # s2 @ zs))"
      using s1 slash_facts space_not_digit by (cases s1) simp_all
    have tw: "takeWhile is_digit q = ns"
      and dw: "dropWhile is_digit q = s1 @ CHR ''/'' # s2 @ zs"
      unfolding q_def using run_then [OF ns(2), of "s1 @ CHR ''/'' # s2 @ zs"] h1 by blast+
    have d1: "dropWhile is_space (s1 @ CHR ''/'' # s2 @ zs) = CHR ''/'' # s2 @ zs"
      using run_then(2) [OF s1, of "CHR ''/'' # s2 @ zs"] slash_facts by simp
    have "match_frac (CHR ''/'' # s2 @ zs) = None"
      using slash_facts by (simp add: match_frac_def)
    then have mm: "match_mixed p = None"
      unfolding pq match_mixed_def Let_def using sg [unfolded pq] by (simp add: tw dw d1)
    show ?thesis
      unfolding inches_of_def using tn mm mq [folded pq] nz by simp
  next
    case False
    then have pw: "p = w @ g @ q" and gne: "g \<noteq> []" using g(2) by (simp_all add: p_def)
    have h1: "\<not> is_digit (hd (g @ q))"
      using gne g(1) space_not_digit by (cases g) simp_all
    have tw: "takeWhile is_digit p = w" and dw: "dropWhile is_digit p = g @ q"
      unfolding pw using run_then [OF w, of "g @ q"] h1 by blast+
    have "\<not> is_space (hd q)" using hqd digit_clean by blast
    then have t1: "takeWhile is_space (g @ q) = g" and d1: "dropWhile is_space (g @ q) = q"
      using run_then [OF g(1), of q] by blast+
    have mm: "match_mixed p = Some (w, ns, zs)"
      unfolding match_mixed_def Let_def sg tw dw t1 d1 using False gne mq by simp
    show ?thesis
      unfolding inches_of_def using tn mm nz by simp
  qed
  then have "parseInchesPart p = Throws (Error ''Invalid fraction'')"
    using pne tr hy by (simp add: parseInchesPart_unfold [of p])
  then show ?thesis by (simp add: p_def q_def)
qed

lemma collapse_ws_nospace:
  "\<forall>c \<in> set x. \<not> is_space c \<Longrightarrow> collapse_ws (x @ y) = x @ collapse_ws y"
  by (induction x) simp_all

lemma digit_facts:
  "is_digit c \<Longrightarrow> \<not> is_line_terminator c \<and> c \<noteq> CHR 0x27 \<and> c \<noteq> CHR 0x22"
  using is_digit_cases [of c] space_facts [of c]
  by (auto simp: is_line_terminator_def is_space_def)

lemma dropWhile_append_keep:
  "y = [] \<or> \<not> P (hd y) \<Longrightarrow> dropWhile P (x @ y) = dropWhile P x @ y"
  by (induction x) (cases y; simp)+

lemma collapse_ws_append:
  "y = [] \<or> \<not> is_space (hd y) \<Longrightarrow> collapse_ws (x @ y) = collapse_ws x @ collapse_ws y"
proof (induction x rule: collapse_ws.induct)
  case 1
  then show ?case by simp
next
  case (2 c cs)
  show ?case
  proof (cases "is_space c")
    case True
    have "dropWhile is_space (cs @ y) = dropWhile is_space cs @ y"
      using "2.prems" by (rule dropWhile_append_keep)
    then show ?thesis using True "2.IH"(1) [OF True "2.prems"] by simp
  next
    case False
    then show ?thesis using "2.IH"(2) [OF False "2.prems"] by simp
  qed
qed

lemma set_collapse_ws:
  "c \<in> set (collapse_ws x) \<Longrightarrow> c = CHR '' '' \<or> (c \<in> set x \<and> \<not> is_space c)"
proof (induction x rule: collapse_ws.induct)
  case 1
  then show ?case by simp
next
  case (2 d ds)
  show ?case
  proof (cases "is_space d")
    case True
    with "2.prems" have "c = CHR '' '' \<or> c \<in> set (collapse_ws (dropWhile is_space ds))"
      by simp
    then show ?thesis
      using "2.IH"(1) [OF True] set_dropWhileD [of c is_space ds] by auto
  next
    case False
    with "2.prems" have "c = d \<or> c \<in> set (collapse_ws ds)" by simp
    then show ?thesis using "2.IH"(2) [OF False] False by auto
  qed
qed

lemma collapse_ws_Nil: "collapse_ws x = [] \<longleftrightarrow> x = []"
  by (cases x) simp_all

lemma blank_facts:
  "is_space CHR '' '' \<and> \<not> is_line_terminator CHR '' '' \<and> CHR '' '' \<noteq> CHR 0x27"
  by (simp add: is_space_def is_line_terminator_def)

lemma hyphen_facts:
  "CHR ''-'' \<noteq> CHR 0x22 \<and> CHR ''-'' \<noteq> CHR 0x27 \<and> CHR ''-'' \<noteq> CHR ''/''
   \<and> \<not> is_digit CHR ''-''
   \<and> map_of (zip ''ABCDEFGHIJKLMNOPQRSTUVWXYZ'' ''abcdefghijklmnopqrstuvwxyz'') CHR ''-'' = None"
  by (simp add: is_digit_def)

lemma gap_facts:
  assumes "is_space c \<or> c = CHR ''-''"
  shows "c \<noteq> CHR 0x22 \<and> c \<noteq> CHR 0x27 \<and> c \<noteq> CHR ''/''
   \<and> \<not> is_digit c
   \<and> map_of (zip ''ABCDEFGHIJKLMNOPQRSTUVWXYZ'' ''abcdefghijklmnopqrstuvwxyz'') c = None"
  using assms
proof
  assume "is_space c"
  then show ?thesis using space_facts [of c] space_not_digit [of c] by blast
next
  assume h: "c = CHR ''-''"
  show ?thesis unfolding h by (rule hyphen_facts)
qed

lemma line_terminator_space: "is_line_terminator c \<Longrightarrow> is_space c"
  by (auto simp: is_line_terminator_def is_space_def)

lemma collapse_ws_one_line: "c \<in> set (collapse_ws x) \<Longrightarrow> \<not> is_line_terminator c"
  using set_collapse_ws [of c x] blank_facts line_terminator_space by blast

lemma collapse_ws_keeps:
  assumes "\<forall>c \<in> set x. P c" "P CHR '' ''"
  shows "\<forall>c \<in> set (collapse_ws x). P c"
  using assms set_collapse_ws [of _ x] by blast

lemma replace_hyphens_append:
  "replace_hyphens (x @ y) = replace_hyphens x @ replace_hyphens y"
  by (simp add: replace_hyphens_def)

lemma replace_hyphens_Cons:
  "replace_hyphens (c # y) = (if c = CHR ''-'' then CHR '' '' else c) # replace_hyphens y"
  by (simp add: replace_hyphens_def)

lemma replace_hyphens_Nil: "replace_hyphens x = [] \<longleftrightarrow> x = []"
  by (simp add: replace_hyphens_def)

lemma replace_hyphens_gap:
  "\<forall>c \<in> set x. is_space c \<or> c = CHR ''-'' \<Longrightarrow> \<forall>c \<in> set (replace_hyphens x). is_space c"
  using blank_facts by (auto simp: replace_hyphens_def)

lemma replace_hyphens_digits:
  "\<forall>c \<in> set x. is_digit c \<Longrightarrow> replace_hyphens x = x"
  using is_digit_cases by (intro replace_hyphens_id) blast

text \<open>
  The inches part again, now with hyphens for white space, also before the number.
\<close>

lemma zero_denominator_part_hyphens:
  assumes h: "\<forall>c \<in> set h. is_space c \<or> c = CHR ''-''"
    and w: "\<forall>c \<in> set w. is_digit c"
    and g: "\<forall>c \<in> set g. is_space c \<or> c = CHR ''-''" "w \<noteq> [] \<longrightarrow> g \<noteq> []"
    and ns: "ns \<noteq> []" "\<forall>c \<in> set ns. is_digit c"
    and s1: "\<forall>c \<in> set s1. is_space c \<or> c = CHR ''-''"
    and s2: "\<forall>c \<in> set s2. is_space c \<or> c = CHR ''-''"
    and zs: "zs \<noteq> []" "\<forall>c \<in> set zs. c = CHR ''0''"
  shows "parseInchesPart (h @ (if w = [] then [] else w @ g) @ ns @ s1 @ CHR ''/'' # s2 @ zs)
     = Throws (Error ''Invalid fraction'')"
proof -
  let ?rh = replace_hyphens
  define X where "X = h @ (if w = [] then [] else w @ g) @ ns @ s1 @ CHR ''/'' # s2 @ zs"
  define R0 where "R0 = (if w = [] then [] else w @ ?rh g) @ ns @ ?rh s1 @ CHR ''/'' # ?rh s2 @ zs"
  have zd: "\<forall>c \<in> set zs. is_digit c" using zs(2) by (simp add: is_digit_def)
  have g0: "w \<noteq> [] \<longrightarrow> ?rh g \<noteq> []" using g(2) by (simp add: replace_hyphens_Nil)
  have r0: "parseInchesPart R0 = Throws (Error ''Invalid fraction'')"
    unfolding R0_def
    using w replace_hyphens_gap [OF g(1)] g0 ns replace_hyphens_gap [OF s1]
      replace_hyphens_gap [OF s2] zs
    by (rule zero_denominator_part)
  have sl: "?rh (CHR ''/'' # y) = CHR ''/'' # ?rh y" for y
    by (simp add: replace_hyphens_Cons)
  have x: "?rh X = ?rh h @ R0 @ []"
    unfolding X_def R0_def
    by (simp add: replace_hyphens_append sl replace_hyphens_Nil replace_hyphens_digits [OF w]
        replace_hyphens_digits [OF ns(2)] replace_hyphens_digits [OF zd])
  have "trim (?rh X) = trim R0"
    unfolding x using replace_hyphens_gap [OF h] by (intro trim_pad) simp_all
  then have "parseInchesPart (trim (?rh X)) = parseInchesPart (trim R0)" by simp
  then have "parseInchesPart (?rh X) = parseInchesPart R0"
    by (simp only: parseInchesPart_trim)
  then have "parseInchesPart X = parseInchesPart R0"
    by (simp only: parseInchesPart_replace_hyphens)
  with r0 show ?thesis by (simp add: X_def)
qed

lemma set_strip_sign: "set (strip_sign s) \<subseteq> set s"
  by (cases s) (auto simp: strip_sign_def)

lemma match_feet_no_mark:
  assumes "CHR 0x27 \<notin> set s"
  shows "match_feet s = None"
proof (cases "dropWhile is_space (dropWhile is_digit (strip_sign s))")
  case Nil
  show ?thesis unfolding match_feet_def Let_def Nil by simp
next
  case (Cons c r2)
  then have "c \<in> set (dropWhile is_space (dropWhile is_digit (strip_sign s)))" by simp
  then have "c \<in> set (strip_sign s)" by (blast dest: set_dropWhileD)
  then have "c \<in> set s" using set_strip_sign by blast
  with assms have "c \<noteq> CHR 0x27" by blast
  then show ?thesis unfolding match_feet_def Let_def Cons by simp
qed

lemma match_feet_mark:
  assumes f: "f \<noteq> []" "\<forall>c \<in> set f. is_digit c"
    and a: "\<forall>c \<in> set a. is_space c"
    and r: "\<forall>c \<in> set r. \<not> is_line_terminator c"
  shows "match_feet (f @ a @ CHR 0x27 # r) = Some (f, dropWhile is_space r)"
proof -
  let ?s = "f @ a @ CHR 0x27 # r"
  have hd: "is_digit (hd ?s)" using f by (cases f) simp_all
  have sg: "strip_sign ?s = ?s"
    using f(1) hd by (intro digit_sign) simp_all
  have h1: "\<not> is_digit (hd (a @ CHR 0x27 # r))"
    using a quote_facts space_not_digit by (cases a) simp_all
  have tw: "takeWhile is_digit ?s = f"
    and dw: "dropWhile is_digit ?s = a @ CHR 0x27 # r"
    using run_then [OF f(2), of "a @ CHR 0x27 # r"] h1 by blast+
  have d1: "dropWhile is_space (a @ CHR 0x27 # r) = CHR 0x27 # r"
    using run_then(2) [OF a, of "CHR 0x27 # r"] quote_facts by simp
  have lt: "\<not> list_ex is_line_terminator (dropWhile is_space r)"
    using r by (auto simp: list_ex_iff dest: set_dropWhileD)
  show ?thesis
    unfolding match_feet_def Let_def sg tw dw d1 list.case using f(1) lt by simp
qed

lemma trim_dropWhile: "trim (dropWhile is_space x) = trim x"
proof -
  have "trim (takeWhile is_space x @ dropWhile is_space x @ []) = trim (dropWhile is_space x)"
    by (intro trim_pad) (auto dest: set_takeWhileD)
  then show ?thesis by simp
qed

text \<open>
  The whole input: white space around it, the feet or not, a whole number or not, and the
  fraction, with white space or hyphens between the parts of the inches;
  \<open>parseInches\<close> replaces every run of white space by one space before it looks for the
  feet.
\<close>

lemma zero_denominator_input_hyphens:
  assumes pre: "\<forall>c \<in> set pre. is_space c" and post: "\<forall>c \<in> set post. is_space c"
    and f: "\<forall>c \<in> set f. is_digit c"
    and a: "\<forall>c \<in> set a. is_space c"
    and b: "\<forall>c \<in> set b. is_space c \<or> c = CHR ''-''"
    and w: "\<forall>c \<in> set w. is_digit c"
    and g: "\<forall>c \<in> set g. is_space c \<or> c = CHR ''-''" "w \<noteq> [] \<longrightarrow> g \<noteq> []"
    and ns: "ns \<noteq> []" "\<forall>c \<in> set ns. is_digit c"
    and s1: "\<forall>c \<in> set s1. is_space c \<or> c = CHR ''-''"
    and s2: "\<forall>c \<in> set s2. is_space c \<or> c = CHR ''-''"
    and zs: "zs \<noteq> []" "\<forall>c \<in> set zs. c = CHR ''0''"
  shows "parseInches (pre @ (if f = [] then [] else f @ a @ CHR 0x27 # b)
           @ (if w = [] then [] else w @ g) @ ns @ s1 @ CHR ''/'' # s2 @ zs @ post)
     = Throws (Error ''Invalid fraction'')"
proof -
  let ?cw = collapse_ws
  define gap where "gap = (\<lambda>c. is_space c \<or> c = CHR ''-'')"
  define Q where "Q = ns @ s1 @ CHR ''/'' # s2 @ zs"
  define R where "R = (if w = [] then [] else w @ g) @ Q"
  define core where "core = (if f = [] then [] else f @ a @ CHR 0x27 # b) @ R"
  define R' where "R' = ?cw R"
  define B' where "B' = ?cw (b @ R)"
  define core' where "core' = ?cw core"
  have zd: "\<forall>c \<in> set zs. is_digit c" using zs(2) by (simp add: is_digit_def)
  have gapsp: "gap CHR '' ''" using blank_facts by (simp add: gap_def)
  have b': "\<forall>c \<in> set b. gap c" and g': "\<forall>c \<in> set g. gap c"
    and s1': "\<forall>c \<in> set s1. gap c" and s2': "\<forall>c \<in> set s2. gap c"
    using b g(1) s1 s2 by (simp_all add: gap_def)
  have nd: "\<forall>c \<in> set x. is_digit c \<Longrightarrow> \<forall>c \<in> set x. \<not> is_space c" for x
    using digit_clean by blast
  have cwd: "\<forall>c \<in> set x. is_digit c \<Longrightarrow> ?cw x = x" for x
    using nd by (intro collapse_ws_id) blast
  have cwg: "\<forall>c \<in> set x. gap c \<Longrightarrow> \<forall>c \<in> set (?cw x). is_space c \<or> c = CHR ''-''" for x
    using collapse_ws_keeps [of x gap] gapsp by (simp add: gap_def)
  have Qne: "Q \<noteq> []" using ns(1) by (simp add: Q_def)
  have hQ: "is_digit (hd Q)" using ns by (cases ns; simp add: Q_def)
  have lQ: "last Q = last zs" using zs(1) by (simp add: Q_def)
  have Rne: "R \<noteq> []" using Qne by (simp add: R_def)
  have hR: "is_digit (hd R)" using hQ Qne w by (cases w; simp add: R_def)
  have lR: "last R = last zs" using lQ Qne by (simp add: R_def)
  have cne: "core \<noteq> []" using Rne by (simp add: core_def)
  have hc: "is_digit (hd core)" using hR Rne f by (cases f; simp add: core_def)
  have lc: "last core = last zs" using lR Rne by (simp add: core_def)
  have lz: "is_digit (last zs)" using zs(1) zd by simp
  have hzs: "\<not> is_space (hd zs)" using zs(1) zd digit_clean by (cases zs) simp_all
  have hQs: "\<not> is_space (hd Q)" using hQ digit_clean by blast
  have hRs: "\<not> is_space (hd R)" using hR digit_clean by blast
  have tc: "trim core = core"
    using cne hc lz digit_clean unfolding lc [symmetric] by (intro trim_id) blast+
  have t0: "trim (pre @ core @ post) = core"
    using trim_pad [OF pre post, of core] tc by simp
  have charsR: "c \<in> set R \<Longrightarrow> is_digit c \<or> gap c \<or> c = CHR ''/''" for c
    using w g' ns(2) s1' s2' zd by (auto simp: R_def Q_def split: if_splits)
  have a': "\<forall>c \<in> set a. gap c" using a by (simp add: gap_def)
  have mem: "c \<in> set core \<Longrightarrow>
      c \<in> set f \<or> c \<in> set a \<or> c = CHR 0x27 \<or> c \<in> set b \<or> c \<in> set R" for c
    by (auto simp: core_def split: if_splits)
  have chars: "c \<in> set core \<Longrightarrow> is_digit c \<or> gap c \<or> c = CHR ''/'' \<or> c = CHR 0x27" for c
    using mem [of c] charsR [of c] f a' b' by blast
  have gapf: "gap c \<Longrightarrow> c \<noteq> CHR 0x22 \<and> c \<noteq> CHR 0x27 \<and> c \<noteq> CHR ''/''
      \<and> \<not> is_digit c
      \<and> map_of (zip ''ABCDEFGHIJKLMNOPQRSTUVWXYZ'' ''abcdefghijklmnopqrstuvwxyz'') c = None" for c
    unfolding gap_def by (rule gap_facts)
  have lo: "toLowerCase core = core"
    using chars is_digit_cases gapf slash_facts quote_facts
    by (intro toLowerCase_id) blast
  have rq: "remove_quotes core = core"
    unfolding remove_quotes_def using chars digit_facts gapf quote_facts
    by (intro filter_True) fastforce
  have "CHR ''/'' \<in> set core" by (simp add: core_def R_def Q_def)
  then have tn: "\<not> test_number core" by (rule slash_not_number)
  have cQ: "?cw Q = ns @ ?cw s1 @ CHR ''/'' # ?cw s2 @ zs"
  proof -
    have "?cw (s2 @ zs) = ?cw s2 @ zs"
      using collapse_ws_append [of zs s2] hzs cwd [OF zd] by simp
    then have "?cw (CHR ''/'' # s2 @ zs) = CHR ''/'' # ?cw s2 @ zs"
      using slash_facts by simp
    then have "?cw (s1 @ CHR ''/'' # s2 @ zs) = ?cw s1 @ CHR ''/'' # ?cw s2 @ zs"
      using collapse_ws_append [of "CHR ''/'' # s2 @ zs" s1] slash_facts by simp
    then show ?thesis
      using collapse_ws_nospace [OF nd [OF ns(2)], of "s1 @ CHR ''/'' # s2 @ zs"]
      by (simp add: Q_def)
  qed
  have cR: "R' = (if w = [] then [] else w @ ?cw g) @ ns @ ?cw s1 @ CHR ''/'' # ?cw s2 @ zs"
  proof (cases "w = []")
    case True
    then show ?thesis using cQ by (simp add: R'_def R_def)
  next
    case False
    have "?cw (g @ Q) = ?cw g @ ?cw Q"
      using collapse_ws_append [of Q g] hQs by simp
    then have "?cw (w @ g @ Q) = w @ ?cw g @ ?cw Q"
      using collapse_ws_nospace [OF nd [OF w], of "g @ Q"] by simp
    then show ?thesis using False cQ by (simp add: R'_def R_def)
  qed
  have cB: "B' = ?cw b @ R'"
    unfolding B'_def R'_def using collapse_ws_append [of R b] hRs by simp
  have cc: "core' = (if f = [] then R' else f @ ?cw a @ CHR 0x27 # B')"
  proof (cases "f = []")
    case True
    then show ?thesis by (simp add: core'_def core_def R'_def)
  next
    case False
    have "?cw (CHR 0x27 # b @ R) = CHR 0x27 # B'"
      using quote_facts by (simp add: B'_def)
    then have "?cw (a @ CHR 0x27 # b @ R) = ?cw a @ CHR 0x27 # B'"
      using collapse_ws_append [of "CHR 0x27 # b @ R" a] quote_facts by simp
    then have "?cw (f @ a @ CHR 0x27 # b @ R) = f @ ?cw a @ CHR 0x27 # B'"
      using collapse_ws_nospace [OF nd [OF f], of "a @ CHR 0x27 # b @ R"] by simp
    then show ?thesis using False by (simp add: core'_def core_def)
  qed
  have g0: "w \<noteq> [] \<longrightarrow> ?cw g \<noteq> []" using g(2) by (simp add: collapse_ws_Nil)
  have part: "parseInchesPart (h @ R') = Throws (Error ''Invalid fraction'')"
    if "\<forall>c \<in> set h. is_space c \<or> c = CHR ''-''" for h
    unfolding cR
    using that w cwg [OF g'] g0 ns cwg [OF s1'] cwg [OF s2'] zs
    by (rule zero_denominator_part_hyphens)
  have R'ne: "R' \<noteq> []" using Rne by (simp add: R'_def collapse_ws_Nil)
  have hR': "is_digit (hd R')"
    unfolding cR using w ns by (cases w; cases ns; simp)
  have lR': "last R' = last zs" unfolding cR using zs(1) by simp
  have tR': "trim R' = R'"
    using R'ne hR' lz digit_clean unfolding lR' [symmetric] by (intro trim_id) blast+
  have c'ne: "core' \<noteq> []" using cne by (simp add: core'_def collapse_ws_Nil)
  have hc': "is_digit (hd core')"
    unfolding cc using hR' f by (cases f) simp_all
  have lc': "last core' = last zs"
    unfolding cc cB using lR' R'ne by simp
  have tc': "trim core' = core'"
    using c'ne hc' lz digit_clean unfolding lc' [symmetric] by (intro trim_id) blast+
  have "parseInches (pre @ core @ post) = Throws (Error ''Invalid fraction'')"
  proof (cases "f = []")
    case True
    then have cR': "core' = R'" using cc by simp
    have "CHR 0x27 \<notin> set R"
      using charsR is_digit_cases gapf slash_facts quote_facts by blast
    then have "CHR 0x27 \<notin> set R'"
      unfolding R'_def using set_collapse_ws [of "CHR 0x27" R] blank_facts by blast
    then have mf: "match_feet R' = None" by (rule match_feet_no_mark)
    have p: "parseInchesPart R' = Throws (Error ''Invalid fraction'')"
      using part [of "[]"] by simp
    show ?thesis
      unfolding parseInches_def Let_def t0 lo rq core'_def [symmetric] tc'
      unfolding cR' using cne tn mf R'ne p by simp
  next
    case False
    then have cf: "core' = f @ ?cw a @ CHR 0x27 # B'" using cc by simp
    have sa: "\<forall>c \<in> set (?cw a). is_space c"
      using collapse_ws_keeps [OF a] blank_facts by blast
    have lt: "\<forall>c \<in> set B'. \<not> is_line_terminator c"
      unfolding B'_def using collapse_ws_one_line by blast
    have mf: "match_feet core' = Some (f, dropWhile is_space B')"
      unfolding cf using False f sa lt by (rule match_feet_mark)
    have tb: "trim (dropWhile is_space B') = trim B'" by (rule trim_dropWhile)
    have "hd R' \<in> set B'" using R'ne by (simp add: cB)
    then have "\<not> (\<forall>c \<in> set B'. is_space c)" using hR' digit_clean by blast
    then have tne: "trim B' \<noteq> []" by (simp add: trim_Nil_conv)
    have "parseInchesPart (trim B') = parseInchesPart B'" by (rule parseInchesPart_trim)
    also have "\<dots> = Throws (Error ''Invalid fraction'')"
      unfolding cB using cwg [OF b'] by (rule part)
    finally have p: "parseInchesPart (trim B') = Throws (Error ''Invalid fraction'')" .
    show ?thesis
      unfolding parseInches_def Let_def t0 lo rq core'_def [symmetric] tc'
      using cne tn mf tb tne p by simp
  qed
  then show ?thesis by (simp add: core_def R_def Q_def)
qed

subsection \<open>The examples and the contract\<close>

lemmas parse_eval = parseInches_def parseInchesPart.simps trim_def toLowerCase_def
  test_number_def strip_sign_def is_digit_def is_space_def is_lower_def is_line_terminator_def
  match_feet_def match_frac_def match_mixed_def Number_def digits_value_def digit_val_def Let_def
  remove_quotes_def replace_hyphens_def remove_letters_def

lemma parseInches_examples:
  "parseInches ''9' 1 1/2'' = Returns 109.5"
  "parseInches ''17/64'' = Returns 0.265625"
  "parseInches '''' = Throws (Error ''Empty input'')"
  "parseInches ''1/0'' = Throws (Error ''Invalid fraction'')"
  "parseInches ''9'1-1/2'' = Returns 109.5"
  by (simp_all add: parse_eval)

text \<open>
  C4. \<open>parseInches\<close> of \<open>9' 1 1/2\<close> is 109.5 and of \<open>17/64\<close> is 0.265625; the empty string
  fails with the error \<open>Empty input\<close>; \<open>1/0\<close> fails with the error \<open>Invalid fraction\<close>,
  and so does every fraction with a denominator of zero: a numerator of digits, a slash
  and a denominator of zeros only, with or without white space or hyphens on either side
  of the slash, alone or after a whole number and white space or hyphens, with or without
  feet before it (digits and the feet mark, with or without white space around the mark
  and hyphens after it), and with or without white space around the whole input;
  \<open>parseInchesPart\<close>, which reads the inches part, gives the same result when every
  hyphen of its argument is replaced by a space; and \<open>9'1-1/2\<close> parses to the same as
  \<open>9' 1 1/2\<close>.
\<close>

theorem parseInches_contract:
  "parseInches ''9' 1 1/2'' = Returns 109.5
   \<and> parseInches ''17/64'' = Returns 0.265625
   \<and> parseInches '''' = Throws (Error ''Empty input'')
   \<and> parseInches ''1/0'' = Throws (Error ''Invalid fraction'')
   \<and> (\<forall>ns zs. ns \<noteq> [] \<and> list_all is_digit ns \<and> zs \<noteq> [] \<and> list_all (\<lambda>c. c = CHR ''0'') zs
          \<longrightarrow> parseInches (ns @ ''/'' @ zs) = Throws (Error ''Invalid fraction''))
   \<and> (\<forall>pre f a b w g ns s1 s2 zs post.
          list_all is_space pre \<and> list_all is_space post
          \<and> list_all is_digit f \<and> list_all is_space a
          \<and> list_all (\<lambda>c. is_space c \<or> c = CHR ''-'') b
          \<and> list_all is_digit w
          \<and> list_all (\<lambda>c. is_space c \<or> c = CHR ''-'') g \<and> (w \<noteq> [] \<longrightarrow> g \<noteq> [])
          \<and> ns \<noteq> [] \<and> list_all is_digit ns
          \<and> list_all (\<lambda>c. is_space c \<or> c = CHR ''-'') s1
          \<and> list_all (\<lambda>c. is_space c \<or> c = CHR ''-'') s2
          \<and> zs \<noteq> [] \<and> list_all (\<lambda>c. c = CHR ''0'') zs
          \<longrightarrow> parseInches (pre @ (if f = [] then [] else f @ a @ [CHR 0x27] @ b)
                  @ (if w = [] then [] else w @ g) @ ns @ s1 @ ''/'' @ s2 @ zs @ post)
                = Throws (Error ''Invalid fraction''))
   \<and> (\<forall>part. parseInchesPart (replace_hyphens part) = parseInchesPart part)
   \<and> parseInches ''9'1-1/2'' = parseInches ''9' 1 1/2''"
proof -
  note ex = parseInches_examples
  have bare: "\<forall>ns zs. ns \<noteq> [] \<and> list_all is_digit ns \<and> zs \<noteq> []
      \<and> list_all (\<lambda>c. c = CHR ''0'') zs
      \<longrightarrow> parseInches (ns @ ''/'' @ zs) = Throws (Error ''Invalid fraction'')"
    using zero_denominator_fraction by (simp add: list_all_iff)
  have every: "\<forall>pre f a b w g ns s1 s2 zs post.
      list_all is_space pre \<and> list_all is_space post
      \<and> list_all is_digit f \<and> list_all is_space a
      \<and> list_all (\<lambda>c. is_space c \<or> c = CHR ''-'') b
      \<and> list_all is_digit w
      \<and> list_all (\<lambda>c. is_space c \<or> c = CHR ''-'') g \<and> (w \<noteq> [] \<longrightarrow> g \<noteq> [])
      \<and> ns \<noteq> [] \<and> list_all is_digit ns
      \<and> list_all (\<lambda>c. is_space c \<or> c = CHR ''-'') s1
      \<and> list_all (\<lambda>c. is_space c \<or> c = CHR ''-'') s2
      \<and> zs \<noteq> [] \<and> list_all (\<lambda>c. c = CHR ''0'') zs
      \<longrightarrow> parseInches (pre @ (if f = [] then [] else f @ a @ [CHR 0x27] @ b)
              @ (if w = [] then [] else w @ g) @ ns @ s1 @ ''/'' @ s2 @ zs @ post)
            = Throws (Error ''Invalid fraction'')"
  proof (intro allI impI)
    fix pre f a b w g ns s1 s2 zs post :: string
    assume h: "list_all is_space pre \<and> list_all is_space post
      \<and> list_all is_digit f \<and> list_all is_space a
      \<and> list_all (\<lambda>c. is_space c \<or> c = CHR ''-'') b
      \<and> list_all is_digit w
      \<and> list_all (\<lambda>c. is_space c \<or> c = CHR ''-'') g \<and> (w \<noteq> [] \<longrightarrow> g \<noteq> [])
      \<and> ns \<noteq> [] \<and> list_all is_digit ns
      \<and> list_all (\<lambda>c. is_space c \<or> c = CHR ''-'') s1
      \<and> list_all (\<lambda>c. is_space c \<or> c = CHR ''-'') s2
      \<and> zs \<noteq> [] \<and> list_all (\<lambda>c. c = CHR ''0'') zs"
    then have hs: "\<forall>c \<in> set pre. is_space c" "\<forall>c \<in> set post. is_space c"
      "\<forall>c \<in> set f. is_digit c" "\<forall>c \<in> set a. is_space c"
      "\<forall>c \<in> set b. is_space c \<or> c = CHR ''-''"
      "\<forall>c \<in> set w. is_digit c"
      "\<forall>c \<in> set g. is_space c \<or> c = CHR ''-''" "w \<noteq> [] \<longrightarrow> g \<noteq> []"
      "ns \<noteq> []" "\<forall>c \<in> set ns. is_digit c"
      "\<forall>c \<in> set s1. is_space c \<or> c = CHR ''-''"
      "\<forall>c \<in> set s2. is_space c \<or> c = CHR ''-''"
      "zs \<noteq> []" "\<forall>c \<in> set zs. c = CHR ''0''"
      by (simp_all add: list_all_iff)
    have e: "pre @ (if f = [] then [] else f @ a @ [CHR 0x27] @ b)
          @ (if w = [] then [] else w @ g) @ ns @ s1 @ ''/'' @ s2 @ zs @ post
        = pre @ (if f = [] then [] else f @ a @ CHR 0x27 # b)
          @ (if w = [] then [] else w @ g) @ ns @ s1 @ CHR ''/'' # s2 @ zs @ post"
      by simp
    show "parseInches (pre @ (if f = [] then [] else f @ a @ [CHR 0x27] @ b)
              @ (if w = [] then [] else w @ g) @ ns @ s1 @ ''/'' @ s2 @ zs @ post)
            = Throws (Error ''Invalid fraction'')"
      unfolding e by (rule zero_denominator_input_hyphens [OF hs])
  qed
  have hyphens: "\<forall>part. parseInchesPart (replace_hyphens part) = parseInchesPart part"
    using parseInchesPart_replace_hyphens by blast
  have same: "parseInches ''9'1-1/2'' = parseInches ''9' 1 1/2''"
    by (simp only: ex(1) ex(5))
  show ?thesis
    by (intro conjI ex(1) ex(2) ex(3) ex(4) bare every hyphens same)
qed

theorem parseInches_contract_witness:
  "(''25'' \<noteq> [] \<and> list_all is_digit ''25'' \<and> ''00'' \<noteq> [] \<and> list_all (\<lambda>c. c = CHR ''0'') ''00'')
   \<and> parseInches ''25/00'' = Throws (Error ''Invalid fraction'')
   \<and> (list_all is_space [] \<and> list_all is_digit [] \<and> list_all is_digit ''1''
        \<and> list_all (\<lambda>c. is_space c \<or> c = CHR ''-'') []
        \<and> list_all (\<lambda>c. is_space c \<or> c = CHR ''-'') '' '' \<and> '' '' \<noteq> []
        \<and> ''1'' \<noteq> [] \<and> ''0'' \<noteq> [] \<and> list_all (\<lambda>c. c = CHR ''0'') ''0'')
   \<and> parseInches ''1 1/0'' = Throws (Error ''Invalid fraction'')
   \<and> (list_all is_digit ''9'' \<and> list_all (\<lambda>c. is_space c \<or> c = CHR ''-'') ''-'' \<and> ''-'' \<noteq> [])
   \<and> parseInches ''9'1-1/0'' = Throws (Error ''Invalid fraction'')
   \<and> (list_all is_space ''  '' \<and> list_all is_digit ''12''
        \<and> list_all (\<lambda>c. is_space c \<or> c = CHR ''-'') [CHR 0x09, CHR '' '']
        \<and> [CHR 0x09, CHR '' ''] \<noteq> [] \<and> ''3'' \<noteq> [] \<and> list_all is_digit ''3''
        \<and> ''000'' \<noteq> [] \<and> list_all (\<lambda>c. c = CHR ''0'') ''000'')
   \<and> parseInches ('' 9 '  12'' @ [CHR 0x09, CHR '' ''] @ ''3 /  000  '')
       = Throws (Error ''Invalid fraction'')"
proof -
  have h1: "''25'' \<noteq> [] \<and> list_all is_digit ''25'' \<and> ''00'' \<noteq> []
      \<and> list_all (\<lambda>c. c = CHR ''0'') ''00''"
    by (simp add: is_digit_def)
  have h2: "list_all is_space [] \<and> list_all is_digit [] \<and> list_all is_digit ''1''
      \<and> list_all (\<lambda>c. is_space c \<or> c = CHR ''-'') []
      \<and> list_all (\<lambda>c. is_space c \<or> c = CHR ''-'') '' '' \<and> '' '' \<noteq> []
      \<and> ''1'' \<noteq> [] \<and> ''0'' \<noteq> [] \<and> list_all (\<lambda>c. c = CHR ''0'') ''0''"
    by (simp add: is_digit_def is_space_def)
  have h3: "list_all is_digit ''9'' \<and> list_all (\<lambda>c. is_space c \<or> c = CHR ''-'') ''-''
      \<and> ''-'' \<noteq> []"
    by (simp add: is_digit_def)
  have h4: "list_all is_space ''  '' \<and> list_all is_digit ''12''
      \<and> list_all (\<lambda>c. is_space c \<or> c = CHR ''-'') [CHR 0x09, CHR '' '']
      \<and> [CHR 0x09, CHR '' ''] \<noteq> [] \<and> ''3'' \<noteq> [] \<and> list_all is_digit ''3''
      \<and> ''000'' \<noteq> [] \<and> list_all (\<lambda>c. c = CHR ''0'') ''000''"
    by (simp add: is_digit_def is_space_def)
  note bare = parseInches_contract [THEN conjunct2, THEN conjunct2, THEN conjunct2,
      THEN conjunct2, THEN conjunct1, rule_format]
  note every = parseInches_contract [THEN conjunct2, THEN conjunct2, THEN conjunct2,
      THEN conjunct2, THEN conjunct2, THEN conjunct1, rule_format]
  have c1: "parseInches ''25/00'' = Throws (Error ''Invalid fraction'')"
    using bare [of "''25''" "''00''"] h1 by simp
  have c2: "parseInches ''1 1/0'' = Throws (Error ''Invalid fraction'')"
    using every [of "[]" "[]" "[]" "[]" "[]" "''1''" "'' ''" "''1''" "[]" "[]" "''0''"] h2
    by simp
  have c3: "parseInches ''9'1-1/0'' = Throws (Error ''Invalid fraction'')"
    using every [of "[]" "[]" "''9''" "[]" "[]" "''1''" "''-''" "''1''" "[]" "[]" "''0''"]
      h2 h3
    by simp
  have c4: "parseInches ('' 9 '  12'' @ [CHR 0x09, CHR '' ''] @ ''3 /  000  '')
      = Throws (Error ''Invalid fraction'')"
    using every [of "'' ''" "''  ''" "''9''" "'' ''" "''  ''" "''12''" "[CHR 0x09, CHR '' '']"
        "''3''" "'' ''" "''  ''" "''000''"] h3 h4
    by (simp add: is_space_def)
  from h1 c1 h2 c2 h3 c3 h4 c4 show ?thesis by blast
qed

end
